theory Spec2Isabelle
  imports Complex_Main
begin

section \<open>JavaScript string primitives used by the reader\<close>

text \<open>
  A JavaScript string is modelled as a \<open>string\<close> (a list of 8-bit characters, read as the
  code units below 256). The class \<open>\s\<close> of JavaScript regular expressions, which is also
  the set that \<open>String.prototype.trim\<close> strips, contains among these code units the tab,
  line feed, vertical tab, form feed, carriage return, space and no-break space.
\<close>

definition is_ws :: "char \<Rightarrow> bool" where
  "is_ws c = (c = CHR 0x09 \<or> c = CHR 0x0A \<or> c = CHR 0x0B \<or> c = CHR 0x0C \<or> c = CHR 0x0D
              \<or> c = CHR 0x20 \<or> c = CHR 0xA0)"

text \<open>\<open>/[A-Z]/.test(c)\<close> on a single character.\<close>

definition is_upper :: "char \<Rightarrow> bool" where
  "is_upper c = ((65::nat) \<le> of_char c \<and> of_char c \<le> (90::nat))"

text \<open>\<open>s.trim()\<close>.\<close>

definition trim :: "string \<Rightarrow> string" where
  "trim s = rev (dropWhile is_ws (rev (dropWhile is_ws s)))"

text \<open>
  \<open>s.split(/\s+/)\<close>: the fields between maximal runs of white space. A run at the start or
  at the end of the string leaves an empty field there, and the empty string splits into
  one empty field. The flag says that the previous character was white space, \<open>cur\<close> is
  the field read so far.
\<close>

fun split_ws_go :: "bool \<Rightarrow> string \<Rightarrow> string \<Rightarrow> string list" where
  "split_ws_go inws cur [] = [cur]"
| "split_ws_go inws cur (c # cs) =
     (if is_ws c then (if inws then split_ws_go True cur cs else cur # split_ws_go True [] cs)
      else split_ws_go False (cur @ [c]) cs)"

definition split_ws :: "string \<Rightarrow> string list" where
  "split_ws s = split_ws_go False [] s"

text \<open>\<open>s.split(/\s+/).filter(w => w.length > 0)\<close>: the white-space delimited words of \<open>s\<close>.\<close>

definition split_words :: "string \<Rightarrow> string list" where
  "split_words s = filter (\<lambda>w. length w > 0) (split_ws s)"

text \<open>\<open>words.join(' ')\<close>.\<close>

fun join_sp :: "string list \<Rightarrow> string" where
  "join_sp [] = []"
| "join_sp [w] = w"
| "join_sp (w # ws) = w @ CHR 0x20 # join_sp ws"

section \<open>SentenceDetector\<close>

definition abbreviations :: "string list" where
  "abbreviations =
    [''Dr'', ''Mr'', ''Mrs'', ''Ms'', ''Prof'', ''Sr'', ''Jr'',
     ''etc'', ''vs'', ''e.g'', ''i.e'', ''cf'', ''approx'',
     ''U.S'', ''U.K'', ''U.N'', ''E.U'',
     ''St'', ''Ave'', ''Blvd'', ''Rd'',
     ''Jan'', ''Feb'', ''Mar'', ''Apr'', ''Jun'', ''Jul'', ''Aug'', ''Sep'', ''Sept'', ''Oct'',
     ''Nov'', ''Dec'',
     ''Mon'', ''Tue'', ''Wed'', ''Thu'', ''Fri'', ''Sat'', ''Sun'',
     ''Inc'', ''Ltd'', ''Corp'', ''Co'']"

text \<open>\<open>lastWord.replace(/\.$/, '')\<close>: one full stop at the very end is removed.\<close>

definition strip_final_stop :: "string \<Rightarrow> string" where
  "strip_final_stop w = (if w \<noteq> [] \<and> last w = CHR ''.'' then butlast w else w)"

text \<open>
  The test made at a \<open>.\<close>, \<open>!\<close> or \<open>?\<close> in \<open>detectSentences\<close>: \<open>currentSentence\<close> already ends
  with the punctuation character at index \<open>i\<close>, and \<open>rest\<close> is \<open>text.slice(i + 1)\<close>, so
  \<open>nextChar\<close> and \<open>afterSpace\<close> are its first two characters, \<open>undefined\<close> (here \<open>None\<close>) when
  the text is too short. \<open>split_ws\<close> never returns the empty list, so \<open>last\<close> is the
  source's \<open>words[words.length - 1]\<close>.
\<close>

definition ends_sentence :: "string \<Rightarrow> string \<Rightarrow> bool" where
  "ends_sentence currentSentence rest =
    (let nextChar = (case rest of [] \<Rightarrow> None | c # _ \<Rightarrow> Some c);
         afterSpace = (case rest of _ # c # _ \<Rightarrow> Some c | _ \<Rightarrow> None);
         words = split_ws (trim currentSentence);
         lastWord = last words;
         isAbbreviation = (strip_final_stop lastWord \<in> set abbreviations)
     in if \<not> isAbbreviation then
          (let nextIsWhitespace = (case nextChar of None \<Rightarrow> True | Some c \<Rightarrow> is_ws c);
               nextIsQuote = (nextChar = Some (CHR 0x22) \<or> nextChar = Some (CHR 0x27));
               afterSpaceIsUpper = (case afterSpace of None \<Rightarrow> False | Some c \<Rightarrow> is_upper c);
               isEndOfText = (rest = [])
           in (nextIsWhitespace \<or> nextIsQuote) \<and>
              (afterSpaceIsUpper \<or> isEndOfText \<or> nextChar = None))
        else False)"

text \<open>
  The \<open>while (i < text.length)\<close> loop of \<open>detectSentences\<close>, by recursion on
  \<open>text.slice(i)\<close>; the state is \<open>currentSentence\<close> and the \<open>sentences\<close> pushed so far.
\<close>

fun detect_loop :: "string \<Rightarrow> string list \<Rightarrow> string \<Rightarrow> string \<times> string list" where
  "detect_loop currentSentence sentences [] = (currentSentence, sentences)"
| "detect_loop currentSentence sentences (ch # rest) =
     (let currentSentence = currentSentence @ [ch] in
      if (ch = CHR ''.'' \<or> ch = CHR ''!'' \<or> ch = CHR ''?'') \<and> ends_sentence currentSentence rest
      then detect_loop [] (sentences @ [trim currentSentence]) rest
      else detect_loop currentSentence sentences rest)"

definition detectSentences :: "string \<Rightarrow> string list" where
  "detectSentences text =
    (if text = [] \<or> length (trim text) = 0 then []
     else (case detect_loop [] [] text of (currentSentence, sentences) \<Rightarrow>
             if length (trim currentSentence) > 0 then sentences @ [trim currentSentence]
             else sentences))"

section \<open>The sentence map of the engine\<close>

text \<open>One entry of \<open>sentenceWordMap\<close>; \<open>sentenceIdx\<close> is the source's field \<open>sentenceIndex\<close>
  and \<open>sentenceText\<close> its field \<open>text\<close>.\<close>

record sentence_span =
  sentenceIdx :: nat
  startWordIndex :: int
  endWordIndex :: int
  sentenceText :: string

text \<open>
  The \<open>forEach\<close> of \<open>_initializeSentences\<close>: \<open>wordIndex\<close> is the running counter and
  \<open>idx\<close> the index \<open>sentenceIdx\<close> that \<open>forEach\<close> passes to the callback.
\<close>

fun map_sentences :: "int \<Rightarrow> nat \<Rightarrow> string list \<Rightarrow> sentence_span list" where
  "map_sentences wordIndex idx [] = []"
| "map_sentences wordIndex idx (sentence # rest) =
     (let sentenceWords = split_words sentence;
          startIdx = wordIndex;
          endIdx = wordIndex + int (length sentenceWords) - 1
      in \<lparr> sentenceIdx = idx, startWordIndex = startIdx,
            endWordIndex = endIdx, sentenceText = sentence \<rparr>
         # map_sentences (wordIndex + int (length sentenceWords)) (Suc idx) rest)"

text \<open>\<open>_initializeSentences\<close> returns the new values of \<open>this.sentences\<close> and
  \<open>this.sentenceWordMap\<close>.\<close>

definition initializeSentences :: "string list \<Rightarrow> string list \<times> sentence_span list" where
  "initializeSentences words =
     (let text = join_sp words;
          sentences = detectSentences text
      in (sentences, map_sentences 0 0 sentences))"

section \<open>Configuration and page\<close>

text \<open>
  A JavaScript number is \<open>NaN\<close>, one of the two infinities or a finite value. Finite values
  are modelled by reals: the rounding of a result to the nearest double and the sign of
  zero are left out. Division and multiplication follow IEEE 754 on the other cases.
\<close>

datatype js_number = NaN | PosInfinity | NegInfinity | Finite real

definition js_div :: "js_number \<Rightarrow> js_number \<Rightarrow> js_number" where
  "js_div x y =
     (case (x, y) of
        (Finite a, Finite b) \<Rightarrow>
          if b = 0 then (if a = 0 then NaN else if 0 < a then PosInfinity else NegInfinity)
          else Finite (a / b)
      | (Finite a, PosInfinity) \<Rightarrow> Finite 0
      | (Finite a, NegInfinity) \<Rightarrow> Finite 0
      | (PosInfinity, Finite b) \<Rightarrow> if 0 \<le> b then PosInfinity else NegInfinity
      | (NegInfinity, Finite b) \<Rightarrow> if 0 \<le> b then NegInfinity else PosInfinity
      | _ \<Rightarrow> NaN)"

definition js_mul :: "js_number \<Rightarrow> js_number \<Rightarrow> js_number" where
  "js_mul x y =
     (case (x, y) of
        (Finite a, Finite b) \<Rightarrow> Finite (a * b)
      | (Finite a, PosInfinity) \<Rightarrow> if a = 0 then NaN else if 0 < a then PosInfinity else NegInfinity
      | (Finite a, NegInfinity) \<Rightarrow> if a = 0 then NaN else if 0 < a then NegInfinity else PosInfinity
      | (PosInfinity, Finite b) \<Rightarrow> if b = 0 then NaN else if 0 < b then PosInfinity else NegInfinity
      | (NegInfinity, Finite b) \<Rightarrow> if b = 0 then NaN else if 0 < b then NegInfinity else PosInfinity
      | (PosInfinity, PosInfinity) \<Rightarrow> PosInfinity
      | (NegInfinity, NegInfinity) \<Rightarrow> PosInfinity
      | (PosInfinity, NegInfinity) \<Rightarrow> NegInfinity
      | (NegInfinity, PosInfinity) \<Rightarrow> NegInfinity
      | _ \<Rightarrow> NaN)"

text \<open>
  The fields of \<open>CONFIG\<close> that the modelled code reads. \<open>wpm\<close> is whatever number
  \<open>setSpeed\<close> was given last. The word spacing and the pixel offsets computed from it are
  reals (the widths measured are integers, so the offsets are integers and halves), and
  indices are integers.
\<close>

record config =
  wpm :: js_number
  wordSpacing :: real
  wordsPerPage :: int

definition CONFIG :: config where
  "CONFIG = \<lparr> wpm = Finite 250, wordSpacing = 8, wordsPerPage = 300 \<rparr>"

text \<open>
  What the code reads from the page. \<open>measureElement\<close> is the element with id \<open>measure\<close>,
  absent (\<open>None\<close>) when \<open>getElementById\<close> returns \<open>null\<close>; when present it is the function
  giving \<open>offsetWidth\<close>, a non-negative integer, after \<open>textContent\<close> and the font weight
  (bold or normal) have been set, or \<open>None\<close> when that access throws. \<open>displayArea\<close> tells
  whether the element \<open>display-area\<close> exists, and \<open>container\<close> is the \<open>offsetWidth\<close> of
  \<open>main-container\<close> when that element exists.
\<close>

type_synonym measure_element = "string \<Rightarrow> bool \<Rightarrow> nat option"

record page =
  measureElement :: "measure_element option"
  displayArea :: bool
  container :: "real option"

datatype error =
    ConfigRequired            \<comment> \<open>\<open>WordMarqueeEngine: config is required\<close>\<close>
  | EngineWordsInvalid        \<comment> \<open>\<open>WordMarqueeEngine: words must be a non-empty array\<close>\<close>
  | MetricsWordsInvalid       \<comment> \<open>\<open>WordMetrics: words must be a non-empty array\<close>\<close>
  | MeasureElementNotFound    \<comment> \<open>\<open>WordMetrics: measure element not found\<close>\<close>
  | DisplayAreaNotFound       \<comment> \<open>\<open>RenderEngine: display-area element not found\<close>\<close>
  | ContainerNotFound         \<comment> \<open>\<open>RenderEngine: main-container element not found\<close>\<close>
  | TypeError                 \<comment> \<open>a property read on \<open>undefined\<close>\<close>
  | InitializationFailed error \<comment> \<open>\<open>WordMarqueeEngine: Initialization failed - \<dots>\<close>\<close>

text \<open>A value that is a string or \<open>undefined\<close>, as \<open>word[i]\<close> is.\<close>

datatype js_text = Undefined | Text string

definition char_at :: "string \<Rightarrow> nat \<Rightarrow> js_text" where
  "char_at s i = (if i < length s then Text [s ! i] else Undefined)"

text \<open>The string that \<open>undefined\<close> or a string becomes inside a template or a \<open>+\<close>.\<close>

fun to_string :: "js_text \<Rightarrow> string" where
  "to_string Undefined = ''undefined''"
| "to_string (Text s) = s"

text \<open>Assigning \<open>undefined\<close> to \<open>textContent\<close> empties the element.\<close>

fun text_content :: "js_text \<Rightarrow> string" where
  "text_content Undefined = []"
| "text_content (Text s) = s"

text \<open>The argument \<open>words\<close> of the constructors: an array of strings or any other value.\<close>

datatype js_words = NotArray | Array "string list"

section \<open>WordMetrics\<close>

type_synonym cache = "string \<rightharpoonup> nat"

definition cacheKey :: "js_text \<Rightarrow> bool \<Rightarrow> string" where
  "cacheKey t bold = to_string t @ ''_'' @ (if bold then ''true'' else ''false'')"

text \<open>
  \<open>_measureText\<close> returns the width and the cache after the call. A width measured on the
  page is stored; the fallback of the \<open>catch\<close> block, ten pixels per character, is not, and
  its \<open>text.length\<close> throws when the text is \<open>undefined\<close>.
\<close>

definition measureText :: "measure_element \<Rightarrow> cache \<Rightarrow> js_text \<Rightarrow> bool \<Rightarrow> error + (nat \<times> cache)" where
  "measureText el measurementCache t bold =
     (let key = cacheKey t bold in
      case measurementCache key of
        Some w \<Rightarrow> Inr (w, measurementCache)
      | None \<Rightarrow>
          (case el (text_content t) bold of
             Some w \<Rightarrow> Inr (w, measurementCache(key \<mapsto> w))
           | None \<Rightarrow>
               (case t of
                  Text s \<Rightarrow> Inr (length s * 10, measurementCache)
                | Undefined \<Rightarrow> Inl TypeError)))"

definition getWordWidth :: "measure_element \<Rightarrow> cache \<Rightarrow> string \<Rightarrow> bool \<Rightarrow> error + (nat \<times> cache)" where
  "getWordWidth el c0 wrd isFocus =
     (if \<not> isFocus then measureText el c0 (Text wrd) False
      else
        (let len = length wrd;
             middleIndex = (if len \<le> 2 then 0 else len div 2);
             before = take middleIndex wrd;
             middle = char_at wrd middleIndex;
             after = drop (middleIndex + 1) wrd
         in case measureText el c0 (Text before) False of
              Inl e \<Rightarrow> Inl e
            | Inr (w1, c1) \<Rightarrow>
                (case measureText el c1 middle True of
                   Inl e \<Rightarrow> Inl e
                 | Inr (w2, c2) \<Rightarrow>
                     (case measureText el c2 (Text after) False of
                        Inl e \<Rightarrow> Inl e
                      | Inr (w3, c3) \<Rightarrow> Inr (w1 + w2 + w3, c3)))))"

text \<open>The \<open>for\<close> loop of \<open>getMiddleLetterOffset\<close>, over the indices still to visit.\<close>

fun offset_loop :: "measure_element \<Rightarrow> cache \<Rightarrow> string \<Rightarrow> nat list \<Rightarrow> nat \<Rightarrow> error + (nat \<times> cache)" where
  "offset_loop el c wrd [] offset = Inr (offset, c)"
| "offset_loop el c wrd (i # is) offset =
     (case measureText el c (char_at wrd i) False of
        Inl e \<Rightarrow> Inl e
      | Inr (w, c') \<Rightarrow> offset_loop el c' wrd is (offset + w))"

definition getMiddleLetterOffset :: "measure_element \<Rightarrow> cache \<Rightarrow> string \<Rightarrow> error + (real \<times> cache)" where
  "getMiddleLetterOffset el c0 wrd =
     (let len = length wrd;
          middleIndex = (if len \<le> 2 then 0 else len div 2)
      in case offset_loop el c0 wrd [0 ..< middleIndex] 0 of
           Inl e \<Rightarrow> Inl e
         | Inr (offset, c1) \<Rightarrow>
             (case measureText el c1 (char_at wrd middleIndex) True of
                Inl e \<Rightarrow> Inl e
              | Inr (middleWidth, c2) \<Rightarrow> Inr (real offset + real middleWidth / 2, c2)))"

record word_position =
  word :: string
  index :: nat
  startPosition :: real
  width :: real
  middleLetterOffset :: real
  centerPosition :: real

text \<open>
  The \<open>forEach\<close> of \<open>_calculateWordPositions\<close>: \<open>idx\<close> is the index passed to the callback,
  \<open>cumulativePosition\<close> the running offset; the result lists the positions pushed from
  here on. \<open>this.config\<close> is the second argument of the constructor, \<open>None\<close> when it is
  \<open>undefined\<close> or \<open>null\<close>: reading \<open>this.config.wordSpacing\<close> at the end of the callback
  then throws.
\<close>

fun positions_loop ::
  "measure_element \<Rightarrow> config option \<Rightarrow> cache \<Rightarrow> nat \<Rightarrow> real \<Rightarrow> string list \<Rightarrow> error + (word_position list \<times> cache)" where
  "positions_loop el cfg c idx cumulativePosition [] = Inr ([], c)"
| "positions_loop el cfg c idx cumulativePosition (wrd # rest) =
     (case getWordWidth el c wrd True of
        Inl e \<Rightarrow> Inl e
      | Inr (wd, c1) \<Rightarrow>
          (case getMiddleLetterOffset el c1 wrd of
             Inl e \<Rightarrow> Inl e
           | Inr (mlo, c2) \<Rightarrow>
               (case cfg of
                  None \<Rightarrow> Inl TypeError
                | Some cf \<Rightarrow>
                    (case positions_loop el cfg c2 (Suc idx)
                            (cumulativePosition + (real wd + wordSpacing cf)) rest of
                       Inl e \<Rightarrow> Inl e
                     | Inr (positions, c3) \<Rightarrow>
                         Inr (\<lparr> word = wrd, index = idx, startPosition = cumulativePosition,
                                 width = real wd, middleLetterOffset = mlo,
                                 centerPosition = cumulativePosition + mlo \<rparr> # positions, c3)))))"

definition calculateWordPositions ::
  "measure_element \<Rightarrow> config option \<Rightarrow> cache \<Rightarrow> string list \<Rightarrow> error + (word_position list \<times> cache)" where
  "calculateWordPositions el cfg c ws = positions_loop el cfg c 0 0 ws"

record word_metrics =
  metricsWords :: "string list"
  wordPositions :: "word_position list"
  measurementCache :: cache

text \<open>The constructor of \<open>WordMetrics\<close>. It stores its second argument without
  looking at it; \<open>None\<close> stands for \<open>undefined\<close> or \<open>null\<close>.\<close>

definition new_WordMetrics :: "page \<Rightarrow> js_words \<Rightarrow> config option \<Rightarrow> error + word_metrics" where
  "new_WordMetrics pg ws cfg =
     (case ws of
        NotArray \<Rightarrow> Inl MetricsWordsInvalid
      | Array wl \<Rightarrow>
          if length wl = 0 then Inl MetricsWordsInvalid
          else
            (case measureElement pg of
               None \<Rightarrow> Inl MeasureElementNotFound
             | Some el \<Rightarrow>
                 (case calculateWordPositions el cfg Map.empty wl of
                    Inl e \<Rightarrow> Inl e
                  | Inr (positions, c) \<Rightarrow>
                      Inr \<lparr> metricsWords = wl, wordPositions = positions, measurementCache = c \<rparr>)))"

definition getWordCount :: "word_metrics \<Rightarrow> int" where
  "getWordCount m = int (length (metricsWords m))"

section \<open>RenderEngine\<close>

text \<open>
  The element built by \<open>_createWordElement\<close>: a \<open>span\<close> of class \<open>word\<close> whose content
  is set through \<open>innerHTML\<close> for the focus word and through \<open>textContent\<close> otherwise.
\<close>

datatype word_element = InnerHTML string | TextContent string

definition createWordElement :: "string \<Rightarrow> bool \<Rightarrow> word_element" where
  "createWordElement wrd isFocus =
     (if isFocus then
        (let len = length wrd;
             middleIndex = (if len \<le> 2 then 0 else len div 2);
             before = take middleIndex wrd;
             middle = char_at wrd middleIndex;
             after = drop (middleIndex + 1) wrd
         in InnerHTML (before @ ''<span class='' @ [CHR 0x22] @ ''middle-letter'' @ [CHR 0x22] @ ''>''
                       @ to_string middle @ ''</span>'' @ after))
      else TextContent wrd)"

record render_engine =
  rendererSentenceWordMap :: "sentence_span list"
  containerWidth :: real
  centerX :: real

text \<open>The constructor of \<open>RenderEngine\<close>; the third argument is the array it keeps as
  \<open>this.sentenceWordMap\<close>.\<close>

definition new_RenderEngine :: "page \<Rightarrow> sentence_span list \<Rightarrow> error + render_engine" where
  "new_RenderEngine pg swm =
     (if \<not> displayArea pg then Inl DisplayAreaNotFound
      else case container pg of
             None \<Rightarrow> Inl ContainerNotFound
           | Some offsetWidth \<Rightarrow>
               (let containerPadding = 40;
                    cw = offsetWidth - containerPadding
                in Inr \<lparr> rendererSentenceWordMap = swm, containerWidth = cw, centerX = cw / 2 \<rparr>))"

section \<open>The page around the engine: timers and session storage\<close>

text \<open>
  The functions the engine hands to \<open>setInterval\<close> and \<open>setTimeout\<close>: its bound
  \<open>_advanceWord\<close> and \<open>_advanceSentence\<close>, and the closure of \<open>saveStateDebounced\<close>.
\<close>

datatype callback = AdvanceWord | AdvanceSentence | SaveStateCallback

datatype timer_kind = Interval | Timeout

text \<open>An active timer; \<open>timerDelay\<close> is the delay argument as it was passed.\<close>

record timer =
  timerId :: nat
  timerKind :: timer_kind
  timerDelay :: js_number
  timerCallback :: callback

subsection \<open>JSON\<close>

text \<open>
  The values \<open>JSON.stringify\<close> is given and \<open>JSON.parse\<close> returns. An object is the
  list of its properties in creation order, which is the order \<open>JSON.stringify\<close> follows
  for keys that are not array indices.
\<close>

datatype json = JNull | JBool bool | JNum js_number | JStr string | JArr "json list"
  | JObj "(string \<times> json) list"

text \<open>
  The stored text is a list of characters. \<open>Number::toString\<close> writes an integer with its
  decimal digits, in exponent form from \<open>10^21\<close> on; the finite numbers of this model are
  not rounded to doubles, so the digits are those of the integer itself also above \<open>2^53\<close>,
  where JavaScript writes the shortest digits that read back as the same double. The digits
  of a finite number that is not an integer depend on its binary representation, which the
  reals of this model do not have; such a literal is kept as one symbol \<open>NumLit r\<close> of the
  text, standing for the characters of the literal that denotes \<open>r\<close>.
\<close>

datatype jsym = Ch char | NumLit real

text \<open>The decimal digits of a natural number, most significant first.\<close>

function nat_digits :: "nat \<Rightarrow> nat list" where
  "nat_digits n = (if n < 10 then [n] else nat_digits (n div 10) @ [n mod 10])"
  by pat_completeness auto
termination by (relation "measure id") auto

declare nat_digits.simps [simp del]

definition digit_char :: "nat \<Rightarrow> char" where
  "digit_char d = char_of (48 + d)"

definition strip_zeros :: "nat list \<Rightarrow> nat list" where
  "strip_zeros ds = rev (dropWhile (\<lambda>d. d = 0) (rev ds))"

text \<open>
  \<open>Number::toString\<close> on a non-negative integer with the digits \<open>ds\<close>: the digits themselves
  when there are at most 21, and otherwise the first digit, the remaining digits up to the
  last one that is not zero after a point, and the exponent \<open>length ds - 1\<close>.
\<close>

definition nat_text :: "nat \<Rightarrow> string" where
  "nat_text n =
     (let ds = nat_digits n in
      if length ds \<le> 21 then map digit_char ds
      else
        (let s = strip_zeros ds
         in digit_char (hd s) # (if tl s = [] then [] else CHR ''.'' # map digit_char (tl s))
            @ ''e+'' @ map digit_char (nat_digits (length ds - 1))))"

definition int_text :: "int \<Rightarrow> string" where
  "int_text i = (if i < 0 then CHR ''-'' # nat_text (nat (- i)) else nat_text (nat i))"

text \<open>A number as \<open>JSON.stringify\<close> writes it: \<open>null\<close> when it is not finite.\<close>

definition number_text :: "js_number \<Rightarrow> jsym list" where
  "number_text x =
     (case x of
        Finite r \<Rightarrow> if r = of_int \<lfloor>r\<rfloor> then map Ch (int_text \<lfloor>r\<rfloor>) else [NumLit r]
      | _ \<Rightarrow> map Ch ''null'')"

text \<open>\<open>QuoteJSONString\<close>: the quote, the backslash and the control characters are escaped.\<close>

definition hex_char :: "nat \<Rightarrow> char" where
  "hex_char d = ''0123456789abcdef'' ! d"

definition escape_char :: "char \<Rightarrow> string" where
  "escape_char c =
     (if c = CHR 0x22 then [CHR 0x5C, CHR 0x22]
      else if c = CHR 0x5C then [CHR 0x5C, CHR 0x5C]
      else if c = CHR 0x08 then [CHR 0x5C, CHR ''b'']
      else if c = CHR 0x0C then [CHR 0x5C, CHR ''f'']
      else if c = CHR 0x0A then [CHR 0x5C, CHR ''n'']
      else if c = CHR 0x0D then [CHR 0x5C, CHR ''r'']
      else if c = CHR 0x09 then [CHR 0x5C, CHR ''t'']
      else if (of_char c :: nat) < 32
        then [CHR 0x5C, CHR ''u'', CHR ''0'', CHR ''0'',
              hex_char (of_char c div 16), hex_char (of_char c mod 16)]
      else [c])"

definition quote :: "string \<Rightarrow> jsym list" where
  "quote s = Ch (CHR 0x22) # map Ch (concat (map escape_char s)) @ [Ch (CHR 0x22)]"

text \<open>\<open>JSON.stringify\<close> without indentation. The values built by \<open>saveState\<close> hold no
  \<open>undefined\<close>, function or symbol, which it would leave out.\<close>

fun stringify :: "json \<Rightarrow> jsym list"
and stringify_elements :: "json list \<Rightarrow> jsym list"
and stringify_members :: "(string \<times> json) list \<Rightarrow> jsym list" where
  "stringify JNull = map Ch ''null''"
| "stringify (JBool b) = map Ch (if b then ''true'' else ''false'')"
| "stringify (JNum x) = number_text x"
| "stringify (JStr s) = quote s"
| "stringify (JArr vs) = Ch (CHR ''['') # stringify_elements vs @ [Ch (CHR '']'')]"
| "stringify (JObj kvs) = Ch (CHR ''{'') # stringify_members kvs @ [Ch (CHR ''}'')]"
| "stringify_elements [] = []"
| "stringify_elements [v] = stringify v"
| "stringify_elements (v # u # vs) = stringify v @ Ch (CHR '','') # stringify_elements (u # vs)"
| "stringify_members [] = []"
| "stringify_members [(k, v)] = quote k @ Ch (CHR '':'') # stringify v"
| "stringify_members ((k, v) # m # kvs) =
     quote k @ Ch (CHR '':'') # stringify v @ Ch (CHR '','') # stringify_members (m # kvs)"

definition JSON_stringify :: "json \<Rightarrow> jsym list" where
  "JSON_stringify v = stringify v"

text \<open>
  \<open>JSON.parse\<close>. White space is allowed around every token. A string ends at the next
  quote that is not escaped; a control character in it is an error, and so is, here, an
  escape \<open>\u\<close> of a code unit above 255, which the strings of this model do not hold.
\<close>

definition is_space :: "jsym \<Rightarrow> bool" where
  "is_space s = (s = Ch (CHR 0x20) \<or> s = Ch (CHR 0x09) \<or> s = Ch (CHR 0x0A) \<or> s = Ch (CHR 0x0D))"

definition skip_ws :: "jsym list \<Rightarrow> jsym list" where
  "skip_ws cs = dropWhile is_space cs"

definition is_digit :: "jsym \<Rightarrow> bool" where
  "is_digit s = (case s of Ch c \<Rightarrow> 48 \<le> (of_char c :: nat) \<and> (of_char c :: nat) \<le> 57 | NumLit _ \<Rightarrow> False)"

definition digit_value :: "jsym \<Rightarrow> nat" where
  "digit_value s = (case s of Ch c \<Rightarrow> of_char c - 48 | NumLit _ \<Rightarrow> 0)"

definition digits_value :: "jsym list \<Rightarrow> nat" where
  "digits_value ds = foldl (\<lambda>a d. 10 * a + digit_value d) 0 ds"

definition hex_value :: "jsym \<Rightarrow> nat option" where
  "hex_value s =
     (case s of
        Ch c \<Rightarrow>
          (let n = (of_char c :: nat) in
           if 48 \<le> n \<and> n \<le> 57 then Some (n - 48)
           else if 97 \<le> n \<and> n \<le> 102 then Some (n - 87)
           else if 65 \<le> n \<and> n \<le> 70 then Some (n - 55)
           else None)
      | NumLit _ \<Rightarrow> None)"

definition hex4 :: "jsym list \<Rightarrow> nat option" where
  "hex4 cs =
     (case cs of
        a # b # c # d # _ \<Rightarrow>
          (case (hex_value a, hex_value b, hex_value c, hex_value d) of
             (Some x, Some y, Some z, Some u) \<Rightarrow> Some (((x * 16 + y) * 16 + z) * 16 + u)
           | _ \<Rightarrow> None)
      | _ \<Rightarrow> None)"

definition unescape :: "char \<Rightarrow> char option" where
  "unescape e =
     (if e = CHR 0x22 then Some (CHR 0x22)
      else if e = CHR 0x5C then Some (CHR 0x5C)
      else if e = CHR ''/'' then Some (CHR ''/'')
      else if e = CHR ''b'' then Some (CHR 0x08)
      else if e = CHR ''f'' then Some (CHR 0x0C)
      else if e = CHR ''n'' then Some (CHR 0x0A)
      else if e = CHR ''r'' then Some (CHR 0x0D)
      else if e = CHR ''t'' then Some (CHR 0x09)
      else None)"

fun parse_chars :: "jsym list \<Rightarrow> (string \<times> jsym list) option" where
  "parse_chars [] = None"
| "parse_chars (NumLit x # r) = None"
| "parse_chars (Ch c # r) =
     (if c = CHR 0x22 then Some ([], r)
      else if c = CHR 0x5C then
        (case r of
           Ch e # r' \<Rightarrow>
             if e = CHR ''u'' then
               (case hex4 r' of
                  None \<Rightarrow> None
                | Some n \<Rightarrow>
                    if n < 256 then
                      (case parse_chars (drop 4 r') of
                         None \<Rightarrow> None
                       | Some (s, r'') \<Rightarrow> Some (char_of n # s, r''))
                    else None)
             else
               (case unescape e of
                  None \<Rightarrow> None
                | Some d \<Rightarrow>
                    (case parse_chars r' of
                       None \<Rightarrow> None
                     | Some (s, r'') \<Rightarrow> Some (d # s, r'')))
         | _ \<Rightarrow> None)
      else if (of_char c :: nat) < 32 then None
      else
        (case parse_chars r of
           None \<Rightarrow> None
         | Some (s, r') \<Rightarrow> Some (c # s, r')))"

text \<open>
  A number literal: an optional minus, the integer part (\<open>0\<close> or digits not starting with
  \<open>0\<close>), an optional fraction and an optional exponent. Its value is taken exactly.
\<close>

definition int_part :: "jsym list \<Rightarrow> (jsym list \<times> jsym list) option" where
  "int_part cs =
     (case cs of
        [] \<Rightarrow> None
      | s # r \<Rightarrow>
          if s = Ch (CHR ''0'') then Some ([s], r)
          else if is_digit s then Some (takeWhile is_digit cs, dropWhile is_digit cs)
          else None)"

definition frac_part :: "jsym list \<Rightarrow> (jsym list \<times> jsym list) option" where
  "frac_part cs =
     (case cs of
        [] \<Rightarrow> Some ([], cs)
      | s # r \<Rightarrow>
          if s = Ch (CHR ''.'') then
            (if takeWhile is_digit r = [] then None
             else Some (takeWhile is_digit r, dropWhile is_digit r))
          else Some ([], cs))"

definition exp_part :: "jsym list \<Rightarrow> (int \<times> jsym list) option" where
  "exp_part cs =
     (case cs of
        [] \<Rightarrow> Some (0, cs)
      | s # r \<Rightarrow>
          if s = Ch (CHR ''e'') \<or> s = Ch (CHR ''E'') then
            (let negative = (case r of t # _ \<Rightarrow> t = Ch (CHR ''-'') | [] \<Rightarrow> False);
                 signed = (case r of t # _ \<Rightarrow> t = Ch (CHR ''-'') \<or> t = Ch (CHR ''+'') | [] \<Rightarrow> False);
                 r' = (if signed then tl r else r);
                 ds = takeWhile is_digit r'
             in if ds = [] then None
                else Some (if negative then - int (digits_value ds) else int (digits_value ds),
                           dropWhile is_digit r'))
          else Some (0, cs))"

definition unsigned_number :: "jsym list \<Rightarrow> (real \<times> jsym list) option" where
  "unsigned_number cs =
     (case int_part cs of
        None \<Rightarrow> None
      | Some (ip, r1) \<Rightarrow>
          (case frac_part r1 of
             None \<Rightarrow> None
           | Some (fp, r2) \<Rightarrow>
               (case exp_part r2 of
                  None \<Rightarrow> None
                | Some (ex, r3) \<Rightarrow>
                    (let mantissa = real (digits_value (ip @ fp));
                         e = ex - int (length fp)
                     in Some (if 0 \<le> e then mantissa * 10 ^ nat e else mantissa / 10 ^ nat (- e),
                              r3)))))"

definition parse_number :: "jsym list \<Rightarrow> (real \<times> jsym list) option" where
  "parse_number cs =
     (case cs of
        [] \<Rightarrow> None
      | s # r \<Rightarrow>
          if s = Ch (CHR ''-'') then
            (case unsigned_number r of
               None \<Rightarrow> None
             | Some (x, r') \<Rightarrow> Some (- x, r'))
          else unsigned_number cs)"

text \<open>Defining a property: a key already present keeps its place and gets the new value.\<close>

definition obj_set :: "string \<Rightarrow> json \<Rightarrow> (string \<times> json) list \<Rightarrow> (string \<times> json) list" where
  "obj_set k v kvs =
     (if k \<in> fst ` set kvs then map (\<lambda>(k', v'). if k' = k then (k', v) else (k', v')) kvs
      else kvs @ [(k, v)])"

definition literal :: "string \<Rightarrow> json \<Rightarrow> jsym list \<Rightarrow> (json \<times> jsym list) option" where
  "literal name v cs =
     (if take (length name) cs = map Ch name then Some (v, drop (length name) cs) else None)"

text \<open>
  The value, the elements of an array and the members of an object. The first argument
  bounds the depth of the calls: every value, element and member takes one. \<open>JSON_parse\<close>
  starts with more than the length of the text, which is enough for every text that
  \<open>JSON_stringify\<close> writes.
\<close>

fun parse_value :: "nat \<Rightarrow> jsym list \<Rightarrow> (json \<times> jsym list) option"
and parse_elements :: "nat \<Rightarrow> json list \<Rightarrow> jsym list \<Rightarrow> (json \<times> jsym list) option"
and parse_members :: "nat \<Rightarrow> (string \<times> json) list \<Rightarrow> jsym list \<Rightarrow> (json \<times> jsym list) option" where
  "parse_value 0 cs = None"
| "parse_value (Suc n) cs =
     (case skip_ws cs of
        [] \<Rightarrow> None
      | NumLit x # r \<Rightarrow> Some (JNum (Finite x), r)
      | Ch c # r \<Rightarrow>
          if c = CHR ''{'' then
            (case skip_ws r of
               [] \<Rightarrow> None
             | s # r' \<Rightarrow> if s = Ch (CHR ''}'') then Some (JObj [], r') else parse_members n [] (s # r'))
          else if c = CHR ''['' then
            (case skip_ws r of
               [] \<Rightarrow> None
             | s # r' \<Rightarrow> if s = Ch (CHR '']'') then Some (JArr [], r') else parse_elements n [] (s # r'))
          else if c = CHR 0x22 then
            (case parse_chars r of
               None \<Rightarrow> None
             | Some (s, r') \<Rightarrow> Some (JStr s, r'))
          else if c = CHR ''n'' then literal ''null'' JNull (Ch c # r)
          else if c = CHR ''t'' then literal ''true'' (JBool True) (Ch c # r)
          else if c = CHR ''f'' then literal ''false'' (JBool False) (Ch c # r)
          else
            (case parse_number (Ch c # r) of
               None \<Rightarrow> None
             | Some (x, r') \<Rightarrow> Some (JNum (Finite x), r')))"
| "parse_elements 0 acc cs = None"
| "parse_elements (Suc n) acc cs =
     (case parse_value n cs of
        None \<Rightarrow> None
      | Some (v, r) \<Rightarrow>
          (case skip_ws r of
             [] \<Rightarrow> None
           | s # r' \<Rightarrow>
               if s = Ch (CHR '','') then parse_elements n (acc @ [v]) r'
               else if s = Ch (CHR '']'') then Some (JArr (acc @ [v]), r')
               else None))"
| "parse_members 0 acc cs = None"
| "parse_members (Suc n) acc cs =
     (case skip_ws cs of
        [] \<Rightarrow> None
      | q # r \<Rightarrow>
          if q = Ch (CHR 0x22) then
            (case parse_chars r of
               None \<Rightarrow> None
             | Some (k, r1) \<Rightarrow>
                 (case skip_ws r1 of
                    [] \<Rightarrow> None
                  | c # r2 \<Rightarrow>
                      if c = Ch (CHR '':'') then
                        (case parse_value n r2 of
                           None \<Rightarrow> None
                         | Some (v, r3) \<Rightarrow>
                             (case skip_ws r3 of
                                [] \<Rightarrow> None
                              | s # r4 \<Rightarrow>
                                  if s = Ch (CHR '','') then parse_members n (obj_set k v acc) r4
                                  else if s = Ch (CHR ''}'') then Some (JObj (obj_set k v acc), r4)
                                  else None))
                      else None))
          else None)"

definition JSON_parse :: "jsym list \<Rightarrow> json option" where
  "JSON_parse cs =
     (case parse_value (Suc (length cs)) cs of
        None \<Rightarrow> None
      | Some (v, r) \<Rightarrow> if skip_ws r = [] then Some v else None)"

subsection \<open>The globals of the page\<close>

record book =
  filename :: string
  title :: string
  bookType :: string

record pdf_viewer =
  pdfDoc :: bool
  currentPage :: int
  highlightingActive :: bool
  currentHighlightIndex :: int
  highlightWPM :: js_number
  zoomLevel :: js_number

section \<open>WordMarqueeEngine\<close>

record playback_state =
  mode :: string
  isPlaying :: bool
  focusIndex :: int
  sentenceIndex :: int
  lastTimestamp :: "real option"

text \<open>
  The engine object. Its \<open>config\<close> is the one \<open>CONFIG\<close> object of the page, which \<open>setSpeed\<close>
  writes and \<open>saveState\<close> reads. \<open>intervalId\<close> is \<open>null\<close> (\<open>None\<close>) or the handle returned by
  \<open>setInterval\<close> or \<open>setTimeout\<close>.
\<close>

record engine =
  config :: config
  words :: "string list"
  metrics :: word_metrics
  renderer :: render_engine
  sentences :: "string list"
  sentenceWordMap :: "sentence_span list"
  state :: playback_state
  intervalId :: "nat option"

text \<open>
  The constructor. The renderer is created before \<open>_initializeSentences\<close> replaces
  \<open>this.sentenceWordMap\<close> by a new array, so it keeps the empty array it was given.
\<close>

definition new_WordMarqueeEngine :: "page \<Rightarrow> config option \<Rightarrow> js_words \<Rightarrow> error + engine" where
  "new_WordMarqueeEngine pg cfg_opt ws =
     (case cfg_opt of
        None \<Rightarrow> Inl ConfigRequired
      | Some cfg \<Rightarrow>
          (case ws of
             NotArray \<Rightarrow> Inl EngineWordsInvalid
           | Array wl \<Rightarrow>
               if length wl = 0 then Inl EngineWordsInvalid
               else
                 (case new_WordMetrics pg (Array wl) (Some cfg) of
                    Inl e \<Rightarrow> Inl (InitializationFailed e)
                  | Inr m \<Rightarrow>
                      (case new_RenderEngine pg [] of
                         Inl e \<Rightarrow> Inl (InitializationFailed e)
                       | Inr r \<Rightarrow>
                           (case initializeSentences wl of
                              (ss, swm) \<Rightarrow>
                                Inr \<lparr> config = cfg, words = wl, metrics = m, renderer = r,
                                      sentences = ss, sentenceWordMap = swm,
                                      state = \<lparr> mode = ''word'', isPlaying = False, focusIndex = 0,
                                                sentenceIndex = 0, lastTimestamp = None \<rparr>,
                                      intervalId = None \<rparr>)))))"

text \<open>
  The page state the engine's methods act on: the engine, the browser's table of active
  timers with the next handle it will give out (handles are positive and never reused),
  and the globals read by \<open>saveState\<close>. \<open>storageWritable\<close> tells whether
  \<open>sessionStorage.setItem\<close> succeeds; \<open>sessionStorage\<close> is the text stored under
  \<open>readfast_state\<close>, \<open>None\<close> when there is no such item.
\<close>

record world =
  engine :: engine
  timers :: "timer list"
  nextTimerId :: nat
  saveStateTimeout :: "nat option"
  currentBook :: "book option"
  currentView :: string
  pdfViewer :: "pdf_viewer option"
  booksPanelOpen :: bool
  controlsPanelOpen :: bool
  currentTextColor :: string
  currentBgColor :: string
  storageWritable :: bool
  sessionStorage :: "jsym list option"

text \<open>\<open>setInterval\<close> and \<open>setTimeout\<close> return the new handle.\<close>

definition setTimer :: "timer_kind \<Rightarrow> callback \<Rightarrow> js_number \<Rightarrow> world \<Rightarrow> nat \<times> world" where
  "setTimer k cb delay w =
     (nextTimerId w,
      w\<lparr> timers := timers w @ [\<lparr> timerId = nextTimerId w, timerKind = k, timerDelay = delay,
                                  timerCallback = cb \<rparr>],
         nextTimerId := Suc (nextTimerId w) \<rparr>)"

text \<open>\<open>clearInterval\<close> and \<open>clearTimeout\<close> act on the same table and ignore a handle
  that is \<open>null\<close> or not active.\<close>

definition clearTimer :: "nat option \<Rightarrow> world \<Rightarrow> world" where
  "clearTimer h w = w\<lparr> timers := filter (\<lambda>t. Some (timerId t) \<noteq> h) (timers w) \<rparr>"

text \<open>A handle is truthy when it is neither \<open>null\<close> nor \<open>0\<close>.\<close>

definition truthy_handle :: "nat option \<Rightarrow> bool" where
  "truthy_handle h = (case h of None \<Rightarrow> False | Some i \<Rightarrow> i \<noteq> 0)"

subsection \<open>State persistence\<close>

definition snapshot :: "world \<Rightarrow> json" where
  "snapshot w =
     JObj [
       (''book'', (case currentBook w of
                    None \<Rightarrow> JNull
                  | Some b \<Rightarrow> JObj [(''filename'', JStr (filename b)), (''title'', JStr (title b)),
                                    (''type'', JStr (bookType b))])),
       (''view'', JStr (currentView w)),
       (''readfast'', JObj [
           (''mode'', JStr (mode (state (engine w)))),
           (''focusIndex'', JNum (Finite (real_of_int (focusIndex (state (engine w)))))),
           (''sentenceIndex'', JNum (Finite (real_of_int (sentenceIndex (state (engine w)))))),
           (''wpm'', JNum (wpm (config (engine w))))]),
       (''pdf'', (case pdfViewer w of
                   None \<Rightarrow> JNull
                 | Some v \<Rightarrow>
                     if pdfDoc v then
                       JObj [(''currentPage'', JNum (Finite (real_of_int (currentPage v)))),
                             (''highlightingActive'', JBool (highlightingActive v)),
                             (''currentHighlightIndex'', JNum (Finite (real_of_int (currentHighlightIndex v)))),
                             (''highlightWPM'', JNum (highlightWPM v)),
                             (''zoomLevel'', JNum (zoomLevel v))]
                     else JNull)),
       (''ui'', JObj [(''booksPanelOpen'', JBool (booksPanelOpen w)),
                     (''controlsPanelOpen'', JBool (controlsPanelOpen w)),
                     (''textColor'', JStr (currentTextColor w)),
                     (''bgColor'', JStr (currentBgColor w))])]"

text \<open>\<open>saveState\<close>: nothing is written while no book is selected, and a failing
  \<open>setItem\<close> is caught. The engine exists from \<open>init\<close> on, so the entry \<open>readfast\<close> is
  always the object.\<close>

definition saveState :: "world \<Rightarrow> world" where
  "saveState w =
     (if currentBook w = None then w
      else if storageWritable w then w\<lparr> sessionStorage := Some (JSON_stringify (snapshot w)) \<rparr>
      else w)"

text \<open>\<open>loadState\<close> returns \<open>null\<close> when there is no item, when the item is the empty
  string and when \<open>JSON.parse\<close> throws.\<close>

definition loadState :: "world \<Rightarrow> json" where
  "loadState w =
     (case sessionStorage w of
        None \<Rightarrow> JNull
      | Some stateJson \<Rightarrow>
          if stateJson = [] then JNull
          else (case JSON_parse stateJson of None \<Rightarrow> JNull | Some v \<Rightarrow> v))"

definition saveStateDebounced :: "js_number \<Rightarrow> world \<Rightarrow> world" where
  "saveStateDebounced delay w =
     (let w1 = (if truthy_handle (saveStateTimeout w) then clearTimer (saveStateTimeout w) w else w)
      in case setTimer Timeout SaveStateCallback delay w1 of
           (h, w2) \<Rightarrow> w2\<lparr> saveStateTimeout := Some h \<rparr>)"

text \<open>The function run when the save timer fires.\<close>

definition saveStateCallback :: "world \<Rightarrow> world" where
  "saveStateCallback w = (saveState w)\<lparr> saveStateTimeout := None \<rparr>"

text \<open>Reading a property of an object.\<close>

fun json_get :: "string \<Rightarrow> json \<Rightarrow> json option" where
  "json_get k (JObj kvs) = map_of kvs k"
| "json_get k v = None"

subsection \<open>Methods\<close>

text \<open>
  The methods also call \<open>renderer.render\<close>, \<open>updatePlayPauseButton\<close>, \<open>updateModeIndicator\<close>
  and \<open>updateSpeedUI\<close>. These write to the page only, test for the elements they use and
  (\<open>render\<close>) catch what they throw, so they leave the engine, the timers and the storage
  as they are and have no counterpart here. \<open>setInterval\<close> and \<open>setTimeout\<close> do not throw,
  which leaves the \<open>catch\<close> blocks of \<open>start\<close>, \<open>toggleMode\<close>, \<open>_advanceWord\<close> and
  \<open>_handleWheel\<close> without a way in.
\<close>

definition upd_state :: "(playback_state \<Rightarrow> playback_state) \<Rightarrow> world \<Rightarrow> world" where
  "upd_state f w = w\<lparr> engine := (engine w)\<lparr> state := f (state (engine w)) \<rparr> \<rparr>"

definition set_intervalId :: "nat option \<Rightarrow> world \<Rightarrow> world" where
  "set_intervalId h w = w\<lparr> engine := (engine w)\<lparr> intervalId := h \<rparr> \<rparr>"

text \<open>\<open>array[i]\<close> for a number \<open>i\<close>: \<open>undefined\<close> outside the array.\<close>

definition nth_opt :: "'a list \<Rightarrow> int \<Rightarrow> 'a option" where
  "nth_opt xs i = (if 0 \<le> i \<and> i < int (length xs) then Some (xs ! nat i) else None)"

definition stop :: "world \<Rightarrow> world" where
  "stop w =
     (let w1 = upd_state (\<lambda>s. s\<lparr> isPlaying := False \<rparr>) w;
          w2 = (if truthy_handle (intervalId (engine w1))
                then set_intervalId None (clearTimer (intervalId (engine w1))
                                           (clearTimer (intervalId (engine w1)) w1))
                else w1)
      in upd_state (\<lambda>s. s\<lparr> lastTimestamp := None \<rparr>) w2)"

text \<open>Moving to the sentence \<open>i\<close>, as \<open>_nextPage\<close>, \<open>_prevPage\<close>, \<open>_advanceSentence\<close> and
  \<open>_handleWheel\<close> do: \<open>focusIndex\<close> follows when the map has an entry there.\<close>

definition focus_sentence :: "int \<Rightarrow> world \<Rightarrow> world" where
  "focus_sentence i w =
     (let w1 = upd_state (\<lambda>s. s\<lparr> sentenceIndex := i \<rparr>) w
      in case nth_opt (sentenceWordMap (engine w1)) i of
           None \<Rightarrow> w1
         | Some sentenceMap \<Rightarrow> upd_state (\<lambda>s. s\<lparr> focusIndex := startWordIndex sentenceMap \<rparr>) w1)"

definition advanceSentence :: "world \<Rightarrow> world" where
  "advanceSentence w =
     (if sentenceIndex (state (engine w)) < int (length (sentenceWordMap (engine w))) - 1 then
        (let w1 = focus_sentence (sentenceIndex (state (engine w)) + 1) w;
             w2 = saveStateDebounced (Finite 2000) w1
         in case nth_opt (sentenceWordMap (engine w2)) (sentenceIndex (state (engine w2))) of
              None \<Rightarrow> stop w2
            | Some sentenceMap \<Rightarrow>
                (let wordCount = Finite (real (length (split_words (sentenceText sentenceMap))));
                     wordsPerMinute = wpm (config (engine w2));
                     delayMs = js_mul (js_div wordCount wordsPerMinute) (Finite 60000)
                 in if isPlaying (state (engine w2)) \<and> mode (state (engine w2)) = ''sentence''
                    then (case setTimer Timeout AdvanceSentence delayMs w2 of
                            (h, w3) \<Rightarrow> set_intervalId (Some h) w3)
                    else w2))
      else saveState (stop w))"

definition advanceWord :: "world \<Rightarrow> world" where
  "advanceWord w =
     (if focusIndex (state (engine w)) < getWordCount (metrics (engine w)) - 1 then
        saveStateDebounced (Finite 2000) (upd_state (\<lambda>s. s\<lparr> focusIndex := focusIndex s + 1 \<rparr>) w)
      else saveState (stop w))"

definition start :: "world \<Rightarrow> world" where
  "start w =
     (if isPlaying (state (engine w)) then w
      else
        (let w1 = upd_state (\<lambda>s. s\<lparr> isPlaying := True \<rparr>) w
         in if mode (state (engine w1)) = ''sentence'' then advanceSentence w1
            else
              (let wordInterval = js_div (Finite 60000) (wpm (config (engine w1)))
               in case setTimer Interval AdvanceWord wordInterval w1 of
                    (h, w2) \<Rightarrow> set_intervalId (Some h) w2)))"

definition setSpeed :: "js_number \<Rightarrow> world \<Rightarrow> world" where
  "setSpeed v w =
     (let w1 = w\<lparr> engine := (engine w)\<lparr> config := (config (engine w))\<lparr> wpm := v \<rparr> \<rparr> \<rparr>;
          w2 = (if isPlaying (state (engine w1)) \<and> mode (state (engine w1)) = ''word'' then
                  (let w3 = clearTimer (intervalId (engine w1)) w1;
                       wordInterval = js_div (Finite 60000) (wpm (config (engine w3)))
                   in case setTimer Interval AdvanceWord wordInterval w3 of
                        (h, w4) \<Rightarrow> set_intervalId (Some h) w4)
                else w1)
      in saveState w2)"

text \<open>The search loop of \<open>toggleMode\<close>: the first entry, from index \<open>i\<close> on, whose span
  holds \<open>currentFocusIndex\<close>.\<close>

fun find_sentence :: "int \<Rightarrow> nat \<Rightarrow> sentence_span list \<Rightarrow> (nat \<times> sentence_span) option" where
  "find_sentence currentFocusIndex i [] = None"
| "find_sentence currentFocusIndex i (sentenceMap # rest) =
     (if currentFocusIndex \<ge> startWordIndex sentenceMap \<and> currentFocusIndex \<le> endWordIndex sentenceMap
      then Some (i, sentenceMap)
      else find_sentence currentFocusIndex (Suc i) rest)"

definition toggleMode :: "world \<Rightarrow> world" where
  "toggleMode w =
     (let wasPlaying = isPlaying (state (engine w));
          w1 = stop w;
          currentFocusIndex = focusIndex (state (engine w1));
          w2 = (if mode (state (engine w1)) = ''word'' then
                  (let w3 = upd_state (\<lambda>s. s\<lparr> mode := ''sentence'', sentenceIndex := 0 \<rparr>) w1
                   in case find_sentence currentFocusIndex 0 (sentenceWordMap (engine w3)) of
                        None \<Rightarrow> w3
                      | Some (i, sentenceMap) \<Rightarrow>
                          upd_state (\<lambda>s. s\<lparr> sentenceIndex := int i,
                                             focusIndex := startWordIndex sentenceMap \<rparr>) w3)
                else upd_state (\<lambda>s. s\<lparr> mode := ''word'' \<rparr>) w1);
          w4 = (if wasPlaying then start w2 else w2)
      in saveState w4)"

definition togglePlayPause :: "world \<Rightarrow> world" where
  "togglePlayPause w = (if isPlaying (state (engine w)) then stop w else start w)"

definition nextPage :: "world \<Rightarrow> world" where
  "nextPage w =
     (if mode (state (engine w)) = ''sentence'' then
        (let jumpSize = 10;
             newIndex = min (sentenceIndex (state (engine w)) + jumpSize)
                            (int (length (sentenceWordMap (engine w))) - 1)
         in saveState (focus_sentence newIndex w))
      else
        (let wpp = wordsPerPage (config (engine w));
             totalWords = getWordCount (metrics (engine w));
             currentWordIndex = focusIndex (state (engine w));
             currentPg = currentWordIndex div wpp;
             nextPageStart = min ((currentPg + 1) * wpp) (totalWords - 1)
         in saveState (upd_state (\<lambda>s. s\<lparr> focusIndex := nextPageStart \<rparr>) w)))"

definition prevPage :: "world \<Rightarrow> world" where
  "prevPage w =
     (if mode (state (engine w)) = ''sentence'' then
        (let jumpSize = 10;
             newIndex = max (sentenceIndex (state (engine w)) - jumpSize) 0
         in saveState (focus_sentence newIndex w))
      else
        (let wpp = wordsPerPage (config (engine w));
             currentWordIndex = focusIndex (state (engine w));
             currentPg = currentWordIndex div wpp;
             prevPageStart = max ((currentPg - 1) * wpp) 0
         in saveState (upd_state (\<lambda>s. s\<lparr> focusIndex := prevPageStart \<rparr>) w)))"

definition handleWheel :: "real \<Rightarrow> world \<Rightarrow> world" where
  "handleWheel deltaY w =
     (if mode (state (engine w)) = ''sentence'' then
        (if deltaY > 0 then
           (if sentenceIndex (state (engine w)) > 0
            then saveStateDebounced (Finite 500) (focus_sentence (sentenceIndex (state (engine w)) - 1) w)
            else w)
         else if deltaY < 0 then
           (if sentenceIndex (state (engine w)) < int (length (sentenceWordMap (engine w))) - 1
            then saveStateDebounced (Finite 500) (focus_sentence (sentenceIndex (state (engine w)) + 1) w)
            else w)
         else w)
      else
        (if deltaY > 0 then
           (if focusIndex (state (engine w)) > 0
            then saveStateDebounced (Finite 500) (upd_state (\<lambda>s. s\<lparr> focusIndex := focusIndex s - 1 \<rparr>) w)
            else w)
         else if deltaY < 0 then
           (if focusIndex (state (engine w)) < getWordCount (metrics (engine w)) - 1
            then saveStateDebounced (Finite 500) (upd_state (\<lambda>s. s\<lparr> focusIndex := focusIndex s + 1 \<rparr>) w)
            else w)
         else w))"

subsection \<open>Events\<close>

text \<open>
  What can happen to a loaded engine: a call of one of its public methods or handlers, or
  an active timer firing. An interval stays in the table when it fires, a timeout leaves
  it before its function runs.
\<close>

datatype event =
    Start | Stop | TogglePlayPause | SetSpeed js_number | ToggleMode
  | NextPage | PrevPage | Wheel real | TimerFires nat

definition run_callback :: "callback \<Rightarrow> world \<Rightarrow> world" where
  "run_callback cb w =
     (case cb of
        AdvanceWord \<Rightarrow> advanceWord w
      | AdvanceSentence \<Rightarrow> advanceSentence w
      | SaveStateCallback \<Rightarrow> saveStateCallback w)"

definition fire :: "nat \<Rightarrow> world \<Rightarrow> world" where
  "fire h w =
     (case find (\<lambda>t. timerId t = h) (timers w) of
        None \<Rightarrow> w
      | Some t \<Rightarrow>
          (case timerKind t of
             Interval \<Rightarrow> run_callback (timerCallback t) w
           | Timeout \<Rightarrow> run_callback (timerCallback t) (clearTimer (Some h) w)))"

fun step :: "world \<Rightarrow> event \<Rightarrow> world" where
  "step w Start = start w"
| "step w Stop = stop w"
| "step w TogglePlayPause = togglePlayPause w"
| "step w (SetSpeed v) = setSpeed v w"
| "step w ToggleMode = toggleMode w"
| "step w NextPage = nextPage w"
| "step w PrevPage = prevPage w"
| "step w (Wheel deltaY) = handleWheel deltaY w"
| "step w (TimerFires h) = fire h w"

definition run :: "world \<Rightarrow> event list \<Rightarrow> world" where
  "run w evs = foldl step w evs"

text \<open>The page right after \<open>init\<close> has built the engine: no timer, no book, the view
  \<open>real\<close>, nothing stored.\<close>

definition initial_world :: "engine \<Rightarrow> world" where
  "initial_world e =
     \<lparr> engine = e, timers = [], nextTimerId = 1, saveStateTimeout = None,
       currentBook = None, currentView = ''real'', pdfViewer = None,
       booksPanelOpen = False, controlsPanelOpen = False,
       currentTextColor = ''#ffffff'', currentBgColor = ''#000000'',
       storageWritable = True, sessionStorage = None \<rparr>"

section \<open>Specification predicates\<close>

text \<open>
  The spans of a sentence map are non-empty, each starts right after the previous one ends,
  and together their index ranges are exactly the indices \<open>0, \<dots>, n - 1\<close>.
\<close>

definition spans_partition :: "sentence_span list \<Rightarrow> int \<Rightarrow> bool" where
  "spans_partition m n =
     ((\<forall>k < length m. startWordIndex (m ! k) \<le> endWordIndex (m ! k)) \<and>
      (\<forall>k. Suc k < length m \<longrightarrow> startWordIndex (m ! Suc k) = endWordIndex (m ! k) + 1) \<and>
      (\<Union>sp \<in> set m. {startWordIndex sp .. endWordIndex sp}) = {0 .. n - 1})"

text \<open>
  A sentence end (\<open>.\<close>, \<open>!\<close> or \<open>?\<close>) directly followed by a quote and an upper-case letter:
  the one place where \<open>detectSentences\<close> ends a sentence in the middle of a word.
\<close>

fun quote_break :: "string \<Rightarrow> bool" where
  "quote_break [] = False"
| "quote_break (a # r) =
     (((a = CHR ''.'' \<or> a = CHR ''!'' \<or> a = CHR ''?'') \<and>
       (case r of b # c # _ \<Rightarrow> (b = CHR 0x22 \<or> b = CHR 0x27) \<and> is_upper c | _ \<Rightarrow> False))
      \<or> quote_break r)"

text \<open>
  Two auxiliary notions for the proofs: the words that \<open>split_words\<close> finds in \<open>s\<close> when the
  field being read already holds \<open>cur\<close>, and the number of words of a sentence.
\<close>

definition words_from :: "string \<Rightarrow> string \<Rightarrow> string list" where
  "words_from cur s = filter (\<lambda>w. length w > 0) (split_ws_go False cur s)"

definition word_count :: "string \<Rightarrow> int" where
  "word_count s = int (length (split_words s))"

text \<open>
  The centre-character rule in the specification's words: for a word of length \<open>L\<close> the centre
  index is \<open>0\<close> if \<open>L \<le> 2\<close>, else \<open>floor(L/2)\<close>.
\<close>

definition center_index :: "nat \<Rightarrow> nat" where
  "center_index L = (if L \<le> 2 then 0 else L div 2)"

text \<open>
  What the three places that split a word compute when the split is made at a given index
  \<open>m\<close>: the focus width from the three measured parts, the centre offset from the characters
  before \<open>m\<close> and half of the bold character at \<open>m\<close>, and the markup of the focus word.
\<close>

definition focus_width_at :: "measure_element \<Rightarrow> cache \<Rightarrow> string \<Rightarrow> nat \<Rightarrow> error + (nat \<times> cache)" where
  "focus_width_at el c0 wrd m =
     (case measureText el c0 (Text (take m wrd)) False of
        Inl e \<Rightarrow> Inl e
      | Inr (w1, c1) \<Rightarrow>
          (case measureText el c1 (char_at wrd m) True of
             Inl e \<Rightarrow> Inl e
           | Inr (w2, c2) \<Rightarrow>
               (case measureText el c2 (Text (drop (Suc m) wrd)) False of
                  Inl e \<Rightarrow> Inl e
                | Inr (w3, c3) \<Rightarrow> Inr (w1 + w2 + w3, c3))))"

definition middle_offset_at :: "measure_element \<Rightarrow> cache \<Rightarrow> string \<Rightarrow> nat \<Rightarrow> error + (real \<times> cache)" where
  "middle_offset_at el c0 wrd m =
     (case offset_loop el c0 wrd [0 ..< m] 0 of
        Inl e \<Rightarrow> Inl e
      | Inr (offset, c1) \<Rightarrow>
          (case measureText el c1 (char_at wrd m) True of
             Inl e \<Rightarrow> Inl e
           | Inr (middleWidth, c2) \<Rightarrow> Inr (real offset + real middleWidth / 2, c2)))"

definition focus_element_at :: "string \<Rightarrow> nat \<Rightarrow> word_element" where
  "focus_element_at wrd m =
     InnerHTML (take m wrd @ ''<span class='' @ [CHR 0x22] @ ''middle-letter'' @ [CHR 0x22] @ ''>''
                @ to_string (char_at wrd m) @ ''</span>'' @ drop (Suc m) wrd)"

text \<open>Two measuring elements for the examples: ten pixels for every character, and one
  that reports 20 pixels for the plain letter \<open>a\<close> and nothing for any other text.\<close>

definition ten_px :: measure_element where
  "ten_px t bold = Some (10 * length t)"


definition full_page :: "measure_element \<Rightarrow> page" where
  "full_page el = \<lparr> measureElement = Some el, displayArea = True, container = Some 840 \<rparr>"

text \<open>
  The focus invariant of the playback state, together with what keeps it: a positive page
  size and a sentence map whose spans all start at an index of the document.
\<close>

definition focus_in_range :: "world \<Rightarrow> bool" where
  "focus_in_range w =
     (0 \<le> focusIndex (state (engine w)) \<and>
      focusIndex (state (engine w)) < getWordCount (metrics (engine w)))"

definition map_in_range :: "world \<Rightarrow> bool" where
  "map_in_range w =
     (0 < wordsPerPage (config (engine w)) \<and>
      (\<forall>sp \<in> set (sentenceWordMap (engine w)).
          0 \<le> startWordIndex sp \<and> startWordIndex sp < getWordCount (metrics (engine w))))"

text \<open>The timers that advance the reading position, as opposed to the save timer.\<close>

definition advance_timers :: "world \<Rightarrow> timer list" where
  "advance_timers w = filter (\<lambda>t. timerCallback t \<noteq> SaveStateCallback) (timers w)"

text \<open>
  The invariant behind the single schedule: the handles of the active timers are positive,
  below the next handle and pairwise distinct, the handle in \<open>intervalId\<close> is below the next
  handle, and every active advance timer is the one \<open>intervalId\<close> names, is
  active only while playing, and is a timeout when it advances sentences.
\<close>

definition timers_inv :: "world \<Rightarrow> bool" where
  "timers_inv w =
     (0 < nextTimerId w \<and>
      (\<forall>h. intervalId (engine w) = Some h \<longrightarrow> h < nextTimerId w) \<and>
      (\<forall>t \<in> set (timers w). 0 < timerId t \<and> timerId t < nextTimerId w) \<and>
      distinct (map timerId (timers w)) \<and>
      (\<forall>t \<in> set (advance_timers w).
          intervalId (engine w) = Some (timerId t) \<and> isPlaying (state (engine w)) \<and>
          (timerCallback t = AdvanceSentence \<longrightarrow> timerKind t = Timeout)))"

text \<open>What the invariant of the timers looks at.\<close>

definition tview :: "world \<Rightarrow> timer list \<times> nat \<times> nat option \<times> bool" where
  "tview w = (timers w, nextTimerId w, intervalId (engine w), isPlaying (state (engine w)))"

text \<open>The state a freshly constructed engine has.\<close>

definition fresh_state :: playback_state where
  "fresh_state = \<lparr> mode = ''word'', isPlaying = False, focusIndex = 0, sentenceIndex = 0,
                   lastTimestamp = None \<rparr>"

text \<open>The parts of the engine that no method writes.\<close>

definition static :: "world \<Rightarrow> word_metrics \<times> sentence_span list \<times> int \<times> string list" where
  "static w = (metrics (engine w), sentenceWordMap (engine w), wordsPerPage (config (engine w)),
               words (engine w))"


definition example_engine :: "string list \<Rightarrow> engine" where
  "example_engine wl = projr (new_WordMarqueeEngine (full_page ten_px) (Some CONFIG) (Array wl))"

text \<open>The documents and the book of the examples; the second document is the single word
  \<open>Hi."Abc\<close>.\<close>

definition hi_go_on_words :: "string list" where
  "hi_go_on_words = [''Hi.'', ''Go'', ''on.'']"

definition hi_abc_words :: "string list" where
  "hi_abc_words = [''Hi.'' @ CHR 0x22 # ''Abc'']"


definition dr_smith_words :: "string list" where
  "dr_smith_words = [''Dr.'', ''Smith'', ''arrived.'', ''He'', ''left.'']"

definition a_book :: book where
  "a_book = \<lparr> filename = ''a.pdf'', title = ''A'', bookType = ''pdf'' \<rparr>"

text \<open>
  For the round trip through the stored text: the symbol of a digit, the value of a list
  of digits, and the texts that may follow a number literal without being read as part of
  it.
\<close>

definition digit_sym :: "nat \<Rightarrow> jsym" where
  "digit_sym d = Ch (digit_char d)"

definition dval :: "nat list \<Rightarrow> nat" where
  "dval ds = foldl (\<lambda>a d. 10 * a + d) 0 ds"

definition no_continue :: "jsym list \<Rightarrow> bool" where
  "no_continue r =
     (case r of
        [] \<Rightarrow> True
      | s # _ \<Rightarrow> \<not> is_digit s \<and> s \<noteq> Ch (CHR ''.'') \<and> s \<noteq> Ch (CHR ''e'') \<and> s \<noteq> Ch (CHR ''E''))"

text \<open>
  What \<open>JSON.parse\<close> returns for the text \<open>JSON.stringify\<close> wrote: numbers that are not
  finite have become \<open>null\<close>, and of two properties with one key the later one has
  replaced the earlier.
\<close>

fun read_back :: "json \<Rightarrow> json"
and read_elements :: "json list \<Rightarrow> json list"
and read_members :: "(string \<times> json) list \<Rightarrow> (string \<times> json) list" where
  "read_back JNull = JNull"
| "read_back (JBool b) = JBool b"
| "read_back (JNum x) = (case x of Finite r \<Rightarrow> JNum (Finite r) | _ \<Rightarrow> JNull)"
| "read_back (JStr s) = JStr s"
| "read_back (JArr vs) = JArr (read_elements vs)"
| "read_back (JObj kvs) = JObj (foldl (\<lambda>a (k, v). obj_set k v a) [] (read_members kvs))"
| "read_elements [] = []"
| "read_elements (v # vs) = read_back v # read_elements vs"
| "read_members [] = []"
| "read_members ((k, v) # kvs) = (k, read_back v) # read_members kvs"
section \<open>White space, words and sentences\<close>

subsection \<open>The words of a string\<close>

text \<open>
  The empty fields that \<open>split\<close> leaves are filtered out, so it does not matter whether a
  run of white space was already open: every white-space character closes the field that
  is being read.
\<close>

lemma split_ws_go_after_space: "filter (\<lambda>w. w \<noteq> []) (split_ws_go True [] s) = filter (\<lambda>w. w \<noteq> []) (split_ws_go False [] s)"
  by (cases s) auto

lemma words_from_Nil [simp]: "words_from cur [] = (if cur = [] then [] else [cur])"
  by (simp add: words_from_def)

lemma words_from_Cons [simp]: "words_from cur (c # cs) = (if is_ws c then (if cur = [] then [] else [cur]) @ words_from [] cs else words_from (cur @ [c]) cs)"
  by (simp add: words_from_def split_ws_go_after_space)

lemma words_from_append_ws: "is_ws w \<Longrightarrow> words_from cur (a @ w # b) = words_from cur a @ words_from [] b"
  by (induction a arbitrary: cur) auto

lemma words_from_snoc_ws: "is_ws w \<Longrightarrow> words_from cur (a @ [w]) = words_from cur a"
  using words_from_append_ws[of w cur a "[]"] by simp

lemma words_from_dropWhile: "words_from [] (dropWhile is_ws s) = words_from [] s"
  by (induction s) auto

lemma words_from_rev_dropWhile: "words_from cur (rev (dropWhile is_ws t)) = words_from cur (rev t)"
  by (induction t) (auto simp: words_from_snoc_ws)

lemma words_from_trim: "words_from [] (trim s) = words_from [] s"
  unfolding trim_def using words_from_rev_dropWhile[of "[]" "rev (dropWhile is_ws s)"] by (simp add: words_from_dropWhile)

lemma words_from_word: "\<forall>c\<in>set w. \<not> is_ws c \<Longrightarrow> words_from cur w = (if cur @ w = [] then [] else [cur @ w])"
  by (induction w arbitrary: cur) auto

lemma words_from_word_sp: "\<forall>c\<in>set w. \<not> is_ws c \<Longrightarrow> is_ws s \<Longrightarrow> words_from cur (w @ s # r) = (if cur @ w = [] then [] else [cur @ w]) @ words_from [] r"
  by (induction w arbitrary: cur) auto

lemma split_words_from: "split_words s = words_from [] s"
  by (simp add: split_words_def split_ws_def words_from_def)

lemma words_from_join: "\<forall>w\<in>set ws. w \<noteq> [] \<and> (\<forall>c\<in>set w. \<not> is_ws c) \<Longrightarrow> words_from [] (join_sp ws) = ws"
  by (induction ws rule: join_sp.induct) (auto simp: words_from_word words_from_word_sp is_ws_def)


subsection \<open>Sentence ends and words\<close>

text \<open>
  A sentence ends before white space, at the end of the text, or before a quote followed by
  an upper-case letter. Without the last case every cut falls between two words, and the
  sentences together have the words of the text.
\<close>

lemma ends_sentence_next: "ends_sentence cur rest \<Longrightarrow> rest = [] \<or> is_ws (hd rest) \<or> (\<exists>q u r. rest = q # u # r \<and> (q = CHR 0x22 \<or> q = CHR 0x27) \<and> is_upper u)"
  by (auto simp: ends_sentence_def Let_def split: list.splits if_splits option.splits)

lemma quote_break_Cons: "quote_break r \<Longrightarrow> quote_break (a # r)"
  by simp

lemma ends_sentence_safe:
  assumes "ends_sentence cur rest" "ch = CHR ''.'' \<or> ch = CHR ''!'' \<or> ch = CHR ''?''" "\<not> quote_break (ch # rest)"
  shows "rest = [] \<or> (\<exists>w r. rest = w # r \<and> is_ws w)"
proof -
  from ends_sentence_next[OF assms(1)] consider "rest = []" | "rest \<noteq> [] \<and> is_ws (hd rest)"
    | q u r where "rest = q # u # r" "q = CHR 0x22 \<or> q = CHR 0x27" "is_upper u" by blast
  then show ?thesis
  proof cases
    case 1 then show ?thesis by simp
  next
    case 2 then show ?thesis by (cases rest) auto
  next
    case 3 with assms(2,3) show ?thesis by auto
  qed
qed

lemma detect_loop_words:
  "\<not> quote_break rest \<Longrightarrow> detect_loop cur sents rest = (cur', sents') \<Longrightarrow>
   concat (map (words_from []) sents') @ words_from [] cur' = concat (map (words_from []) sents) @ words_from [] (cur @ rest)"
proof (induction rest arbitrary: cur sents)
  case Nil
  then show ?case by simp
next
  case (Cons ch rest)
  have nq: "\<not> quote_break rest" using Cons.prems(1) quote_break_Cons by blast
  show ?case
  proof (cases "(ch = CHR ''.'' \<or> ch = CHR ''!'' \<or> ch = CHR ''?'') \<and> ends_sentence (cur @ [ch]) rest")
    case True
    then have dl: "detect_loop [] (sents @ [trim (cur @ [ch])]) rest = (cur', sents')"
      using Cons.prems(2) by (simp add: Let_def)
    have "rest = [] \<or> (\<exists>w r. rest = w # r \<and> is_ws w)"
      using ends_sentence_safe[of "cur @ [ch]" rest ch] True Cons.prems(1) by blast
    then have split: "words_from [] ((cur @ [ch]) @ rest) = words_from [] (cur @ [ch]) @ words_from [] rest"
    proof
      assume "rest = []" then show ?thesis by simp
    next
      assume "\<exists>w r. rest = w # r \<and> is_ws w"
      then obtain w r where r: "rest = w # r" "is_ws w" by blast
      have "words_from [] (w # r) = words_from [] r" using r(2) by simp
      then show ?thesis using words_from_append_ws[OF r(2), of "[]" "cur @ [ch]" r] r(1) by simp
    qed
    from Cons.IH[OF nq dl] show ?thesis using split by (simp add: words_from_trim)
  next
    case False
    then have dl: "detect_loop (cur @ [ch]) sents rest = (cur', sents')"
      using Cons.prems(2) by (auto simp add: Let_def)
    from Cons.IH[OF nq dl] show ?thesis by simp
  qed
qed

lemma trim_Nil [simp]: "trim [] = []"
  by (simp add: trim_def)

lemma detectSentences_words:
  assumes "\<not> quote_break text"
  shows "concat (map (words_from []) (detectSentences text)) = words_from [] text"
proof (cases "text = [] \<or> length (trim text) = 0")
  case True
  then have "words_from [] (trim text) = []" by auto
  then show ?thesis using True by (simp add: detectSentences_def words_from_trim)
next
  case False
  obtain cur' sents' where dl: "detect_loop [] [] text = (cur', sents')" by (cases "detect_loop [] [] text")
  from detect_loop_words[OF assms dl] have eq: "concat (map (words_from []) sents') @ words_from [] cur' = words_from [] text" by simp
  have "trim cur' = [] \<Longrightarrow> words_from [] cur' = []" using words_from_trim[of cur'] by simp
  then show ?thesis using False dl eq by (auto simp: detectSentences_def words_from_trim)
qed


subsection \<open>Every sentence has a word\<close>

lemma words_from_nonempty: "cur \<noteq> [] \<or> (\<exists>c\<in>set s. \<not> is_ws c) \<Longrightarrow> words_from cur s \<noteq> []"
  by (induction s arbitrary: cur) auto

lemma trim_nonempty_char: "trim x \<noteq> [] \<Longrightarrow> \<exists>c\<in>set (trim x). \<not> is_ws c"
proof -
  assume a: "trim x \<noteq> []"
  let ?d = "dropWhile is_ws (rev (dropWhile is_ws x))"
  from a have ne: "?d \<noteq> []" by (simp add: trim_def)
  then have "\<not> is_ws (hd ?d)" by (rule hd_dropWhile)
  moreover have "hd ?d \<in> set (trim x)" using ne by (simp add: trim_def)
  ultimately show ?thesis by blast
qed

lemma words_from_trim_nonempty: "trim x \<noteq> [] \<Longrightarrow> words_from [] (trim x) \<noteq> []"
  using trim_nonempty_char words_from_nonempty by blast

lemma detect_loop_nonempty:
  "detect_loop cur sents rest = (cur', sents') \<Longrightarrow> \<forall>s\<in>set sents. words_from [] s \<noteq> [] \<Longrightarrow> \<forall>s\<in>set sents'. words_from [] s \<noteq> []"
proof (induction rest arbitrary: cur sents)
  case Nil
  then show ?case by simp
next
  case (Cons ch rest)
  show ?case
  proof (cases "(ch = CHR ''.'' \<or> ch = CHR ''!'' \<or> ch = CHR ''?'') \<and> ends_sentence (cur @ [ch]) rest")
    case True
    then have dl: "detect_loop [] (sents @ [trim (cur @ [ch])]) rest = (cur', sents')"
      using Cons.prems(1) by (simp add: Let_def)
    have "\<not> is_ws ch" using True by (auto simp: is_ws_def)
    then have "words_from [] (cur @ [ch]) \<noteq> []" by (intro words_from_nonempty) auto
    then have "\<forall>s\<in>set (sents @ [trim (cur @ [ch])]). words_from [] s \<noteq> []"
      using Cons.prems(2) by (simp add: words_from_trim)
    from Cons.IH[OF dl this] show ?thesis .
  next
    case False
    then have dl: "detect_loop (cur @ [ch]) sents rest = (cur', sents')"
      using Cons.prems(1) by (auto simp add: Let_def)
    from Cons.IH[OF dl Cons.prems(2)] show ?thesis .
  qed
qed

lemma detectSentences_nonempty: "\<forall>s\<in>set (detectSentences text). words_from [] s \<noteq> []"
proof -
  obtain cur' sents' where dl: "detect_loop [] [] text = (cur', sents')" by (cases "detect_loop [] [] text")
  from detect_loop_nonempty[OF dl] have "\<forall>s\<in>set sents'. words_from [] s \<noteq> []" by simp
  then show ?thesis using dl words_from_trim_nonempty by (auto simp: detectSentences_def)
qed

subsection \<open>The spans of the sentence map\<close>

lemma map_sentences_Cons:
  "map_sentences i idx (s # ss) =
     \<lparr> sentenceIdx = idx, startWordIndex = i, endWordIndex = i + word_count s - 1, sentenceText = s \<rparr>
     # map_sentences (i + word_count s) (Suc idx) ss"
  by (simp add: Let_def word_count_def)

lemma nth_map_sentences:
  "k < length ss \<Longrightarrow> map_sentences i idx ss ! k =
     \<lparr> sentenceIdx = idx + k, startWordIndex = i + sum_list (map word_count (take k ss)),
       endWordIndex = i + sum_list (map word_count (take k ss)) + word_count (ss ! k) - 1, sentenceText = ss ! k \<rparr>"
proof (induction ss arbitrary: i idx k)
  case Nil
  then show ?case by simp
next
  case (Cons s ss)
  show ?case
  proof (cases k)
    case 0
    then show ?thesis by (simp add: map_sentences_Cons del: map_sentences.simps)
  next
    case (Suc j)
    then have "j < length ss" using Cons.prems by simp
    from Cons.IH[OF this] show ?thesis using Suc by (simp add: map_sentences_Cons add.assoc del: map_sentences.simps)
  qed
qed

lemma length_map_sentences [simp]: "length (map_sentences i idx ss) = length ss"
  by (induction ss arbitrary: i idx) (auto simp: Let_def)

lemma union_map_sentences:
  "(\<Union>sp \<in> set (map_sentences i idx ss). {startWordIndex sp .. endWordIndex sp}) = {i .. i + sum_list (map word_count ss) - 1}"
proof (induction ss arbitrary: i idx)
  case Nil
  then show ?case by simp
next
  case (Cons s ss)
  have "0 \<le> word_count s" by (simp add: word_count_def)
  moreover have "0 \<le> sum_list (map word_count ss)" by (rule sum_list_nonneg) (auto simp: word_count_def)
  ultimately
  have "{i .. i + word_count s - 1} \<union> {i + word_count s .. i + word_count s + sum_list (map word_count ss) - 1} = {i .. i + (word_count s + sum_list (map word_count ss)) - 1}"
    by auto
  then show ?case using Cons.IH[of "i + word_count s" "Suc idx"] by (simp add: map_sentences_Cons del: map_sentences.simps)
qed

lemma sum_word_count_concat: "sum_list (map word_count ss) = int (length (concat (map split_words ss)))"
  by (induction ss) (auto simp: word_count_def)

subsection \<open>Quote breaks lie inside words\<close>

lemma quote_break_append: "quote_break (w @ CHR 0x20 # r) = (quote_break w \<or> quote_break r)"
proof (induction w)
  case Nil
  then show ?case by simp
next
  case (Cons a w)
  have "(case w @ CHR 0x20 # r of b # c # x \<Rightarrow> (b = CHR 0x22 \<or> b = CHR 0x27) \<and> is_upper c | _ \<Rightarrow> False) =
        (case w of b # c # x \<Rightarrow> (b = CHR 0x22 \<or> b = CHR 0x27) \<and> is_upper c | _ \<Rightarrow> False)"
    by (auto simp: is_upper_def split: list.splits)
  then show ?case using Cons.IH by auto
qed

lemma quote_break_join: "\<forall>w\<in>set ws. \<not> quote_break w \<Longrightarrow> \<not> quote_break (join_sp ws)"
  by (induction ws rule: join_sp.induct) (auto simp: quote_break_append)

section \<open>Measuring and laying out words\<close>

subsection \<open>Measuring a non-empty word succeeds\<close>

text \<open>
  The centre index of a non-empty word points at one of its characters, so nothing
  \<open>undefined\<close> is ever measured and the fallback cannot throw.
\<close>

lemma measureText_ok:
  "t \<noteq> Undefined \<Longrightarrow> \<exists>w c'. measureText el c t bold = Inr (w, c')"
  by (cases t) (auto simp: measureText_def Let_def split: option.splits)

lemma middle_lt: "wrd \<noteq> [] \<Longrightarrow> (if length wrd \<le> 2 then 0 else length wrd div 2) < length wrd"
  by (cases wrd) auto

lemma getWordWidth_ok:
  assumes "wrd \<noteq> []"
  shows "\<exists>w c'. getWordWidth el c wrd isFocus = Inr (w, c')"
proof (cases isFocus)
  case False
  then show ?thesis using measureText_ok[of "Text wrd" el c False] by (simp add: getWordWidth_def)
next
  case True
  let ?m = "if length wrd \<le> 2 then 0 else length wrd div 2"
  obtain w1 c1 where 1: "measureText el c (Text (take ?m wrd)) False = Inr (w1, c1)"
    using measureText_ok[of "Text (take ?m wrd)" el c False] by auto
  have "char_at wrd ?m \<noteq> Undefined"
    using assms middle_lt[of wrd] unfolding char_at_def by auto
  then obtain w2 c2 where 2: "measureText el c1 (char_at wrd ?m) True = Inr (w2, c2)"
    using measureText_ok[of "char_at wrd ?m" el c1 True] by auto
  obtain w3 c3 where 3: "measureText el c2 (Text (drop (?m + 1) wrd)) False = Inr (w3, c3)"
    using measureText_ok[of "Text (drop (?m + 1) wrd)" el c2 False] by auto
  show ?thesis using True 1 2 3 by (simp add: getWordWidth_def Let_def)
qed

lemma offset_loop_ok:
  "(\<forall>i\<in>set ixs. i < length wrd) \<Longrightarrow> \<exists>w c'. offset_loop el c wrd ixs offset = Inr (w, c')"
proof (induction ixs arbitrary: c offset)
  case Nil
  then show ?case by simp
next
  case (Cons i ixs)
  have "char_at wrd i \<noteq> Undefined" using Cons.prems by (auto simp: char_at_def)
  then obtain w c1 where 1: "measureText el c (char_at wrd i) False = Inr (w, c1)"
    using measureText_ok[of "char_at wrd i" el c False] by auto
  have "(\<forall>i\<in>set ixs. i < length wrd)" using Cons.prems by auto
  from Cons.IH[OF this, of c1 "offset + w"] show ?case using 1 by simp
qed

lemma getMiddleLetterOffset_ok:
  assumes "wrd \<noteq> []"
  shows "\<exists>x c'. getMiddleLetterOffset el c wrd = Inr (x, c') \<and> 0 \<le> x"
proof -
  let ?m = "if length wrd \<le> 2 then 0 else length wrd div 2"
  have "(\<forall>i\<in>set [0 ..< ?m]. i < length wrd)"
    using assms middle_lt[of wrd] by auto
  then obtain off c1 where 1: "offset_loop el c wrd [0 ..< ?m] 0 = Inr (off, c1)"
    using offset_loop_ok[of "[0 ..< ?m]" wrd el c 0] by blast
  have "char_at wrd ?m \<noteq> Undefined"
    using assms middle_lt[of wrd] unfolding char_at_def by auto
  then obtain w2 c2 where 2: "measureText el c1 (char_at wrd ?m) True = Inr (w2, c2)"
    using measureText_ok[of "char_at wrd ?m" el c1 True] by auto
  show ?thesis using 1 2 by (simp add: getMiddleLetterOffset_def Let_def)
qed


lemma positions_loop_ok:
  "\<forall>w\<in>set wl. w \<noteq> [] \<Longrightarrow> \<exists>ps c'. positions_loop el (Some cfg) c idx cum wl = Inr (ps, c')"
proof (induction wl arbitrary: c idx cum)
  case Nil
  then show ?case by simp
next
  case (Cons wrd rest)
  then have ok: "wrd \<noteq> []" by simp
  obtain wd c1 where 1: "getWordWidth el c wrd True = Inr (wd, c1)" using getWordWidth_ok[OF ok] by blast
  obtain mlo c2 where 2: "getMiddleLetterOffset el c1 wrd = Inr (mlo, c2)" using getMiddleLetterOffset_ok[OF ok] by blast
  have "\<forall>w\<in>set rest. w \<noteq> []" using Cons.prems by simp
  from Cons.IH[OF this, of c2 "Suc idx" "cum + (real wd + wordSpacing cfg)"]
  obtain ps c3 where 3: "positions_loop el (Some cfg) c2 (Suc idx) (cum + (real wd + wordSpacing cfg)) rest = Inr (ps, c3)" by blast
  show ?case using 1 2 3 by simp
qed


subsection \<open>The chain of positions\<close>






subsection \<open>Without a configuration the layout pass throws\<close>

lemma measureText_error: "measureText el c t bold = Inl e \<Longrightarrow> e = TypeError"
  by (auto simp: measureText_def Let_def split: option.splits js_text.splits)

lemma getWordWidth_error: "getWordWidth el c wrd isFocus = Inl e \<Longrightarrow> e = TypeError"
  by (auto simp: getWordWidth_def Let_def split: if_splits sum.splits) (erule measureText_error)+

lemma offset_loop_error: "offset_loop el c wrd ixs offset = Inl e \<Longrightarrow> e = TypeError"
  by (induction ixs arbitrary: c offset) (auto split: sum.splits dest: measureText_error)

lemma getMiddleLetterOffset_error: "getMiddleLetterOffset el c wrd = Inl e \<Longrightarrow> e = TypeError"
  by (auto simp: getMiddleLetterOffset_def Let_def split: sum.splits
      dest: measureText_error offset_loop_error)

lemma positions_loop_None:
  "wl \<noteq> [] \<Longrightarrow> positions_loop el None c idx cum wl = Inl TypeError"
proof (cases wl)
  case Nil
  assume "wl \<noteq> []"
  with Nil show ?thesis by simp
next
  case (Cons wrd rest)
  show ?thesis
  proof (cases "getWordWidth el c wrd True")
    case (Inl e)
    then show ?thesis using Cons getWordWidth_error[OF Inl] by simp
  next
    case (Inr a)
    obtain wd c1 where a: "a = (wd, c1)" by (cases a)
    show ?thesis
    proof (cases "getMiddleLetterOffset el c1 wrd")
      case (Inl e)
      then show ?thesis using Cons Inr a getMiddleLetterOffset_error[OF Inl] by simp
    next
      case (Inr b)
      then show ?thesis using Cons \<open>getWordWidth el c wrd True = Inr a\<close> a by (cases b) simp
    qed
  qed
qed

lemma new_WordMetrics_None:
  "wl \<noteq> [] \<Longrightarrow> measureElement pg \<noteq> None \<Longrightarrow> new_WordMetrics pg (Array wl) None = Inl TypeError"
  by (auto simp: new_WordMetrics_def calculateWordPositions_def positions_loop_None)

section \<open>The engine: what its methods keep\<close>

subsection \<open>What the building blocks change\<close>

lemma saveState_frame [simp]:
  "engine (saveState w) = engine w" "timers (saveState w) = timers w"
  "nextTimerId (saveState w) = nextTimerId w" "saveStateTimeout (saveState w) = saveStateTimeout w"
  by (simp_all add: saveState_def)

lemma clearTimer_frame [simp]:
  "engine (clearTimer h w) = engine w"
  "timers (clearTimer h w) = filter (\<lambda>t. Some (timerId t) \<noteq> h) (timers w)"
  "nextTimerId (clearTimer h w) = nextTimerId w"
  by (simp_all add: clearTimer_def)

lemma setTimer_frame [simp]:
  "fst (setTimer k cb d w) = nextTimerId w"
  "engine (snd (setTimer k cb d w)) = engine w"
  "timers (snd (setTimer k cb d w)) =
     timers w @ [\<lparr> timerId = nextTimerId w, timerKind = k, timerDelay = d, timerCallback = cb \<rparr>]"
  "nextTimerId (snd (setTimer k cb d w)) = Suc (nextTimerId w)"
  by (simp_all add: setTimer_def)

lemma upd_state_frame [simp]:
  "engine (upd_state f w) = (engine w)\<lparr> state := f (state (engine w)) \<rparr>"
  "timers (upd_state f w) = timers w"
  "nextTimerId (upd_state f w) = nextTimerId w"
  by (simp_all add: upd_state_def)

lemma set_intervalId_frame [simp]:
  "engine (set_intervalId h w) = (engine w)\<lparr> intervalId := h \<rparr>"
  "timers (set_intervalId h w) = timers w"
  "nextTimerId (set_intervalId h w) = nextTimerId w"
  by (simp_all add: set_intervalId_def)

lemma saveStateDebounced_frame [simp]:
  "engine (saveStateDebounced d w) = engine w"
  "timers (saveStateDebounced d w) =
     (if truthy_handle (saveStateTimeout w)
      then filter (\<lambda>t. Some (timerId t) \<noteq> saveStateTimeout w) (timers w) else timers w)
     @ [\<lparr> timerId = nextTimerId w, timerKind = Timeout, timerDelay = d, timerCallback = SaveStateCallback \<rparr>]"
  "nextTimerId (saveStateDebounced d w) = Suc (nextTimerId w)"
  by (simp_all add: saveStateDebounced_def Let_def case_prod_beta)

lemma saveStateCallback_frame [simp]:
  "engine (saveStateCallback w) = engine w" "timers (saveStateCallback w) = timers w"
  "nextTimerId (saveStateCallback w) = nextTimerId w"
  by (simp_all add: saveStateCallback_def)

lemma stop_engine:
  "engine (stop w) = (engine w)\<lparr> state := (state (engine w))\<lparr> isPlaying := False, lastTimestamp := None \<rparr>,
       intervalId := (if truthy_handle (intervalId (engine w)) then None else intervalId (engine w)) \<rparr>"
  by (simp add: stop_def Let_def)

lemma stop_timers:
  "timers (stop w) = (if truthy_handle (intervalId (engine w))
       then filter (\<lambda>t. Some (timerId t) \<noteq> intervalId (engine w)) (timers w) else timers w)"
  by (simp add: stop_def Let_def)

lemma stop_next [simp]: "nextTimerId (stop w) = nextTimerId w"
  by (simp add: stop_def Let_def)

lemma focus_sentence_frame [simp]:
  "timers (focus_sentence i w) = timers w" "nextTimerId (focus_sentence i w) = nextTimerId w"
  by (simp_all add: focus_sentence_def Let_def split: option.splits)

lemma focus_sentence_engine:
  "engine (focus_sentence i w) = (engine w)\<lparr> state := (state (engine w))\<lparr> sentenceIndex := i,
      focusIndex := (case nth_opt (sentenceWordMap (engine w)) i of None \<Rightarrow> focusIndex (state (engine w))
                     | Some sp \<Rightarrow> startWordIndex sp) \<rparr> \<rparr>"
  by (simp add: focus_sentence_def Let_def split: option.splits)

subsection \<open>What no method writes\<close>

lemma static_simple [simp]:
  "static (saveState w) = static w" "static (saveStateDebounced d w) = static w"
  "static (saveStateCallback w) = static w"
  "static (clearTimer h w) = static w" "static (upd_state f w) = static w"
  "static (set_intervalId h w) = static w" "static (snd (setTimer k cb dl w)) = static w"
  "static (stop w) = static w" "static (focus_sentence i w) = static w"
  by (simp_all add: static_def stop_engine focus_sentence_engine)

lemma static_advanceSentence [simp]: "static (advanceSentence w) = static w"
  by (simp add: advanceSentence_def Let_def case_prod_beta split: option.splits)


lemma static_advanceWord [simp]: "static (advanceWord w) = static w"
  by (simp add: advanceWord_def)

lemma static_start [simp]: "static (start w) = static w"
  by (simp add: start_def Let_def case_prod_beta)

lemma static_setSpeed [simp]: "static (setSpeed v w) = static w"
  by (simp add: setSpeed_def Let_def case_prod_beta) (simp add: static_def)

lemma static_toggleMode [simp]: "static (toggleMode w) = static w"
  by (simp add: toggleMode_def Let_def case_prod_beta split: option.splits)

lemma static_togglePlayPause [simp]: "static (togglePlayPause w) = static w"
  by (simp add: togglePlayPause_def)

lemma static_nextPage [simp]: "static (nextPage w) = static w"
  by (simp add: nextPage_def Let_def)

lemma static_prevPage [simp]: "static (prevPage w) = static w"
  by (simp add: prevPage_def Let_def)

lemma static_handleWheel [simp]: "static (handleWheel d w) = static w"
  by (simp add: handleWheel_def)

lemma static_fire [simp]: "static (fire h w) = static w"
  by (simp add: fire_def run_callback_def split: option.splits timer_kind.splits callback.splits)

lemma static_step [simp]: "static (step w ev) = static w"
  by (cases ev) simp_all

lemma static_run [simp]: "static (run w evs) = static w"
  unfolding run_def by (induction evs arbitrary: w) simp_all

subsection \<open>The focus stays in range\<close>

text \<open>
  Word mode moves the focus by one or to a clamped page start; sentence mode moves it to
  the start of a span of the map.
\<close>

lemma map_in_range_static: "static w' = static w \<Longrightarrow> map_in_range w' = map_in_range w"
  by (simp add: static_def map_in_range_def)

lemma focus_in_range_same:
  "static w' = static w \<Longrightarrow> focusIndex (state (engine w')) = focusIndex (state (engine w)) \<Longrightarrow>
   focus_in_range w' = focus_in_range w"
  by (simp add: static_def focus_in_range_def)

lemma focus_simple [simp]:
  "focus_in_range (saveState w) = focus_in_range w"
  "focus_in_range (saveStateDebounced d w) = focus_in_range w"
  "focus_in_range (saveStateCallback w) = focus_in_range w"
  "focus_in_range (clearTimer h w) = focus_in_range w"
  "focus_in_range (set_intervalId h w) = focus_in_range w"
  "focus_in_range (snd (setTimer k cb dl w)) = focus_in_range w"
  "focus_in_range (stop w) = focus_in_range w"
  by (rule focus_in_range_same; simp add: stop_engine)+

lemma nth_opt_in_set: "nth_opt xs i = Some x \<Longrightarrow> x \<in> set xs"
  by (auto simp: nth_opt_def split: if_splits)

lemma focus_focus_sentence:
  "focus_in_range w \<Longrightarrow> map_in_range w \<Longrightarrow> focus_in_range (focus_sentence i w)"
  by (auto simp: focus_in_range_def map_in_range_def focus_sentence_engine
           dest: nth_opt_in_set split: option.splits)

lemma focus_advanceSentence:
  "focus_in_range w \<Longrightarrow> map_in_range w \<Longrightarrow> focus_in_range (advanceSentence w)"
  by (simp add: advanceSentence_def Let_def case_prod_beta focus_focus_sentence split: option.splits)

lemma focus_upd:
  "0 \<le> focusIndex (f (state (engine w))) \<Longrightarrow> focusIndex (f (state (engine w))) < getWordCount (metrics (engine w)) \<Longrightarrow>
   focus_in_range (upd_state f w)"
  by (simp add: focus_in_range_def)

lemma focus_advanceWord: "focus_in_range w \<Longrightarrow> focus_in_range (advanceWord w)"
  by (auto simp: advanceWord_def intro!: focus_upd) (auto simp: focus_in_range_def)

lemma focus_upd_same:
  "focusIndex (f (state (engine w))) = focusIndex (state (engine w)) \<Longrightarrow>
   focus_in_range (upd_state f w) = focus_in_range w"
  by (simp add: focus_in_range_def)

lemma focus_start: "focus_in_range w \<Longrightarrow> map_in_range w \<Longrightarrow> focus_in_range (start w)"
proof -
  assume a: "focus_in_range w" "map_in_range w"
  let ?w1 = "upd_state (\<lambda>s. s\<lparr>isPlaying := True\<rparr>) w"
  have 1: "focus_in_range ?w1" using a(1) by (simp add: focus_upd_same)
  have 2: "map_in_range ?w1" using a(2) map_in_range_static[of ?w1 w] by simp
  show ?thesis using a 1 focus_advanceSentence[OF 1 2]
    by (simp add: start_def Let_def case_prod_beta)
qed

lemma focus_setSpeed: "focus_in_range w \<Longrightarrow> focus_in_range (setSpeed v w)"
  by (simp add: setSpeed_def Let_def case_prod_beta) (simp add: focus_in_range_def)

lemma find_sentence_in_set: "find_sentence f i m = Some (k, sp) \<Longrightarrow> sp \<in> set m"
  by (induction m arbitrary: i) (auto split: if_splits)

lemma focus_toggleMode:
  assumes "focus_in_range w" "map_in_range w"
  shows "focus_in_range (toggleMode w)"
proof -
  let ?w1 = "stop w"
  have 1: "focus_in_range ?w1" "map_in_range ?w1"
    using assms map_in_range_static[of ?w1 w] by simp_all
  let ?w3 = "upd_state (\<lambda>s. s\<lparr>mode := ''sentence'', sentenceIndex := 0\<rparr>) ?w1"
  have 3: "focus_in_range ?w3" using 1(1) by (simp add: focus_upd_same)
  let ?w2 = "if mode (state (engine ?w1)) = ''word'' then
                  (case find_sentence (focusIndex (state (engine ?w1))) 0 (sentenceWordMap (engine ?w3)) of
                        None \<Rightarrow> ?w3
                      | Some (i, sentenceMap) \<Rightarrow>
                          upd_state (\<lambda>s. s\<lparr> sentenceIndex := int i,
                                             focusIndex := startWordIndex sentenceMap \<rparr>) ?w3)
                else upd_state (\<lambda>s. s\<lparr> mode := ''word'' \<rparr>) ?w1"
  have swm: "sentenceWordMap (engine ?w3) = sentenceWordMap (engine w)" by (simp add: stop_engine)
  have met: "metrics (engine ?w3) = metrics (engine w)" by (simp add: stop_engine)
  have 2: "focus_in_range ?w2"
  proof (cases "mode (state (engine ?w1)) = ''word''")
    case False
    then show ?thesis using 1(1) by (simp add: focus_upd_same)
  next
    case True
    show ?thesis
    proof (cases "find_sentence (focusIndex (state (engine ?w1))) 0 (sentenceWordMap (engine ?w3))")
      case None
      then show ?thesis using True 3 by simp
    next
      case (Some p)
      obtain i sp where p: "p = (i, sp)" by (cases p)
      have "sp \<in> set (sentenceWordMap (engine w))" using find_sentence_in_set Some p swm by metis
      then have "0 \<le> startWordIndex sp \<and> startWordIndex sp < getWordCount (metrics (engine w))"
        using assms(2) by (simp add: map_in_range_def)
      then have "focus_in_range (upd_state (\<lambda>s. s\<lparr> sentenceIndex := int i, focusIndex := startWordIndex sp \<rparr>) ?w3)"
        using met by (intro focus_upd) simp_all
      then show ?thesis using True Some p by simp
    qed
  qed
  have m2: "map_in_range ?w2"
    by (rule iffD2[OF map_in_range_static assms(2)]) (simp split: option.splits)
  have "toggleMode w = saveState (if isPlaying (state (engine w)) then start ?w2 else ?w2)"
    by (simp add: toggleMode_def Let_def)
  then show ?thesis using 2 m2 focus_start by simp
qed

lemma focus_nextPage:
  assumes "focus_in_range w" "map_in_range w"
  shows "focus_in_range (nextPage w)"
proof (cases "mode (state (engine w)) = ''sentence''")
  case True
  then show ?thesis using assms by (simp add: nextPage_def Let_def focus_focus_sentence)
next
  case False
  let ?c = "focusIndex (state (engine w))"
  let ?p = "wordsPerPage (config (engine w))"
  let ?n = "getWordCount (metrics (engine w))"
  have c: "0 \<le> ?c" "?c < ?n" using assms(1) by (simp_all add: focus_in_range_def)
  have p: "0 < ?p" using assms(2) by (simp add: map_in_range_def)
  have "0 \<le> ?c div ?p" using c(1) p by (simp add: pos_imp_zdiv_nonneg_iff)
  then have "0 \<le> (?c div ?p + 1) * ?p" using p by simp
  then have "0 \<le> min ((?c div ?p + 1) * ?p) (?n - 1)" "min ((?c div ?p + 1) * ?p) (?n - 1) < ?n"
    using c by simp_all
  then show ?thesis using False by (simp add: nextPage_def Let_def focus_upd)
qed

lemma focus_prevPage:
  assumes "focus_in_range w" "map_in_range w"
  shows "focus_in_range (prevPage w)"
proof (cases "mode (state (engine w)) = ''sentence''")
  case True
  then show ?thesis using assms by (simp add: prevPage_def Let_def focus_focus_sentence)
next
  case False
  let ?c = "focusIndex (state (engine w))"
  let ?p = "wordsPerPage (config (engine w))"
  let ?n = "getWordCount (metrics (engine w))"
  have c: "0 \<le> ?c" "?c < ?n" using assms(1) by (simp_all add: focus_in_range_def)
  have p: "0 < ?p" using assms(2) by (simp add: map_in_range_def)
  have "?c div ?p * ?p \<le> ?c" using p div_mult_mod_eq[of ?c ?p] pos_mod_sign[of ?p ?c] by linarith
  moreover have "(?c div ?p - 1) * ?p \<le> ?c div ?p * ?p" using p by (simp add: left_diff_distrib)
  ultimately have "(?c div ?p - 1) * ?p < ?n" using c by linarith
  then have "0 \<le> max ((?c div ?p - 1) * ?p) 0" "max ((?c div ?p - 1) * ?p) 0 < ?n"
    using c by simp_all
  then show ?thesis using False by (simp add: prevPage_def Let_def focus_upd)
qed

lemma focus_handleWheel:
  assumes "focus_in_range w" "map_in_range w"
  shows "focus_in_range (handleWheel d w)"
proof (cases "mode (state (engine w)) = ''sentence''")
  case True
  then show ?thesis using assms by (simp add: handleWheel_def focus_focus_sentence)
next
  case False
  have c: "0 \<le> focusIndex (state (engine w))" "focusIndex (state (engine w)) < getWordCount (metrics (engine w))"
    using assms(1) by (simp_all add: focus_in_range_def)
  show ?thesis using False assms(1) c by (auto simp: handleWheel_def intro!: focus_upd)
qed

lemma focus_fire:
  assumes "focus_in_range w" "map_in_range w"
  shows "focus_in_range (fire h w)"
proof -
  have cb: "focus_in_range (run_callback cb w')" if "focus_in_range w'" "map_in_range w'" for cb w'
    using that by (cases cb) (simp_all add: run_callback_def focus_advanceWord focus_advanceSentence)
  have "map_in_range (clearTimer (Some h) w)" using assms(2) map_in_range_static[of "clearTimer (Some h) w" w] by simp
  then show ?thesis using assms cb
    by (simp add: fire_def split: option.splits timer_kind.splits)
qed

lemma focus_step:
  assumes "focus_in_range w" "map_in_range w"
  shows "focus_in_range (step w ev) \<and> map_in_range (step w ev)"
proof -
  have "map_in_range (step w ev)" using assms(2) map_in_range_static[of "step w ev" w] by simp
  moreover have "focus_in_range (step w ev)"
    using assms
    by (cases ev) (simp_all add: focus_start focus_toggleMode focus_nextPage focus_prevPage
        focus_handleWheel focus_fire focus_setSpeed togglePlayPause_def)
  ultimately show ?thesis by simp
qed

lemma focus_run:
  "focus_in_range w \<Longrightarrow> map_in_range w \<Longrightarrow> focus_in_range (run w evs)"
  unfolding run_def by (induction evs arbitrary: w) (simp_all add: focus_step)


subsection \<open>The constructed engine\<close>

lemma new_engine_fields:
  "new_WordMarqueeEngine pg (Some cfg) (Array wl) = Inr e \<Longrightarrow>
     config e = cfg \<and> words e = wl \<and> metricsWords (metrics e) = wl \<and>
     sentences e = fst (initializeSentences wl) \<and> sentenceWordMap e = snd (initializeSentences wl) \<and>
     state e = fresh_state \<and> intervalId e = None \<and> wl \<noteq> []"
  by (auto simp: new_WordMarqueeEngine_def new_WordMetrics_def fresh_state_def
      split: if_splits sum.splits option.splits prod.splits)

lemma new_metrics_ok:
  assumes "wl \<noteq> []" "\<forall>w\<in>set wl. w \<noteq> []" "measureElement pg \<noteq> None"
  shows "\<exists>m. new_WordMetrics pg (Array wl) (Some cfg) = Inr m \<and> metricsWords m = wl"
proof -
  from assms(3) obtain el where el: "measureElement pg = Some el" by auto
  from positions_loop_ok[OF assms(2), of el cfg Map.empty 0 0]
  obtain ps c' where "positions_loop el (Some cfg) Map.empty 0 0 wl = Inr (ps, c')" by blast
  then show ?thesis using assms(1) el by (simp add: new_WordMetrics_def calculateWordPositions_def)
qed

lemma new_engine_ok:
  assumes "wl \<noteq> []" "\<forall>w\<in>set wl. w \<noteq> []" "measureElement pg \<noteq> None" "displayArea pg" "container pg \<noteq> None"
  shows "\<exists>e. new_WordMarqueeEngine pg (Some cfg) (Array wl) = Inr e"
proof -
  from new_metrics_ok[OF assms(1,2,3)] obtain m where
    m: "new_WordMetrics pg (Array wl) (Some cfg) = Inr m" by blast
  from assms(4,5) obtain r where r: "new_RenderEngine pg [] = Inr r"
    by (auto simp: new_RenderEngine_def Let_def)
  show ?thesis using assms(1) m r
    by (simp add: new_WordMarqueeEngine_def split: prod.splits)
qed

lemma map_sentences_start: "sp \<in> set (map_sentences i idx ss) \<Longrightarrow> i \<le> startWordIndex sp"
proof (induction ss arbitrary: i idx)
  case Nil
  then show ?case by simp
next
  case (Cons s ss)
  have "0 \<le> word_count s" by (simp add: word_count_def)
  then show ?case using Cons.prems Cons.IH[of "i + word_count s" "Suc idx"]
    by (auto simp: map_sentences_Cons simp del: map_sentences.simps)
qed

lemma initializeSentences_start: "sp \<in> set (snd (initializeSentences wl)) \<Longrightarrow> 0 \<le> startWordIndex sp"
  using map_sentences_start[of sp 0 0] by (simp add: initializeSentences_def Let_def)

lemma map_of_Hi_Go_on: "snd (initializeSentences [''Hi.'', ''Go'', ''on.'']) =
   [\<lparr> sentenceIdx = 0, startWordIndex = 0, endWordIndex = 0, sentenceText = ''Hi.'' \<rparr>,
    \<lparr> sentenceIdx = 1, startWordIndex = 1, endWordIndex = 2, sentenceText = ''Go on.'' \<rparr>]"
  by code_simp

lemma map_of_Hi_quote_Abc: "snd (initializeSentences [''Hi.'' @ CHR 0x22 # ''Abc'']) =
     [\<lparr> sentenceIdx = 0, startWordIndex = 0, endWordIndex = 0, sentenceText = ''Hi.'' \<rparr>,
      \<lparr> sentenceIdx = 1, startWordIndex = 1, endWordIndex = 1, sentenceText = CHR 0x22 # ''Abc'' \<rparr>]"
  by code_simp

section \<open>The engine: timers, sentence steps and mode changes\<close>

subsection \<open>The invariant of the timers\<close>

text \<open>
  A timer that advances is installed only where none is active: by \<open>start\<close> when
  playback was off, by \<open>setSpeed\<close> after clearing the one \<open>intervalId\<close> names, and by
  \<open>_advanceSentence\<close> either from \<open>start\<close> or from its own timeout, which has left the
  table when the function runs.
\<close>

lemma timers_inv_tview: "tview w' = tview w \<Longrightarrow> timers_inv w' = timers_inv w"
  by (simp add: tview_def timers_inv_def advance_timers_def)

lemma advance_tview: "tview w' = tview w \<Longrightarrow> advance_timers w' = advance_timers w"
  by (simp add: tview_def advance_timers_def)

lemma tview_simple [simp]:
  "tview (saveState w) = tview w"
  "tview (saveStateCallback w) = tview w"
  "tview (focus_sentence i w) = tview w"
  by (simp_all add: tview_def focus_sentence_engine)

lemma inv_simple [simp]:
  "timers_inv (saveState w) = timers_inv w"
  "timers_inv (saveStateCallback w) = timers_inv w"
  "timers_inv (focus_sentence i w) = timers_inv w"
  by (rule timers_inv_tview; simp)+

lemma adv_simple [simp]:
  "advance_timers (saveState w) = advance_timers w"
  "advance_timers (saveStateCallback w) = advance_timers w"
  "advance_timers (focus_sentence i w) = advance_timers w"
  "advance_timers (upd_state f w) = advance_timers w"
  "advance_timers (set_intervalId h w) = advance_timers w"
  by (simp_all add: advance_timers_def)

lemma inv_upd_keep:
  "isPlaying (f (state (engine w))) = isPlaying (state (engine w)) \<Longrightarrow>
   timers_inv (upd_state f w) = timers_inv w"
  by (rule timers_inv_tview) (simp add: tview_def)

lemma inv_clearTimer: "timers_inv w \<Longrightarrow> timers_inv (clearTimer h w)"
  by (auto simp: timers_inv_def advance_timers_def distinct_map_filter)

lemma adv_clearTimer:
  "advance_timers (clearTimer h w) = filter (\<lambda>t. Some (timerId t) \<noteq> h) (advance_timers w)"
  by (auto simp: advance_timers_def intro: filter_cong)

lemma adv_clear_interval:
  "timers_inv w \<Longrightarrow> advance_timers (clearTimer (intervalId (engine w)) w) = []"
  by (auto simp: adv_clearTimer timers_inv_def filter_empty_conv)



lemma inv_saveStateDebounced: "timers_inv w \<Longrightarrow> timers_inv (saveStateDebounced d w)"
proof -
  assume a: "timers_inv w"
  let ?T = "if truthy_handle (saveStateTimeout w)
      then filter (\<lambda>t. Some (timerId t) \<noteq> saveStateTimeout w) (timers w) else timers w"
  have sub: "set ?T \<subseteq> set (timers w)" by auto
  have d: "distinct (map timerId ?T)" using a by (simp add: timers_inv_def distinct_map_filter)
  have A: "\<forall>t\<in>set ?T. 0 < timerId t \<and> timerId t < nextTimerId w"
    using a sub unfolding timers_inv_def by blast
  then have fresh: "nextTimerId w \<notin> timerId ` set ?T" by auto
  have C: "\<forall>t\<in>set (filter (\<lambda>t. timerCallback t \<noteq> SaveStateCallback) ?T).
          intervalId (engine w) = Some (timerId t) \<and> isPlaying (state (engine w)) \<and>
          (timerCallback t = AdvanceSentence \<longrightarrow> timerKind t = Timeout)"
    using a sub unfolding timers_inv_def advance_timers_def by auto
  have n: "0 < nextTimerId w" using a by (simp add: timers_inv_def)
  have D: "\<forall>h. intervalId (engine w) = Some h \<longrightarrow> h < Suc (nextTimerId w)"
    using a by (auto simp: timers_inv_def less_Suc_eq)
  show ?thesis
    unfolding timers_inv_def advance_timers_def
    apply (simp only: saveStateDebounced_frame)
    using A d fresh C n D by (auto simp: less_Suc_eq)
qed


lemma adv_saveStateDebounced:
  "advance_timers (saveStateDebounced d w) =
     (if truthy_handle (saveStateTimeout w)
      then filter (\<lambda>t. Some (timerId t) \<noteq> saveStateTimeout w) (advance_timers w)
      else advance_timers w)"
  by (auto simp: advance_timers_def intro: filter_cong)

lemma adv_saveStateDebounced_empty [simp]:
  "advance_timers w = [] \<Longrightarrow> advance_timers (saveStateDebounced d w) = []"
  by (simp add: adv_saveStateDebounced)

lemma inv_not_playing: "timers_inv w \<Longrightarrow> \<not> isPlaying (state (engine w)) \<Longrightarrow> advance_timers w = []"
proof (cases "advance_timers w")
  case Nil
  then show ?thesis by simp
next
  case (Cons t ts)
  assume "timers_inv w" "\<not> isPlaying (state (engine w))"
  then show ?thesis using Cons unfolding timers_inv_def by (metis list.set_intros(1))
qed

lemma inv_no_handle: "timers_inv w \<Longrightarrow> \<not> truthy_handle (intervalId (engine w)) \<Longrightarrow> advance_timers w = []"
proof (cases "advance_timers w")
  case Nil
  then show ?thesis by simp
next
  case (Cons t ts)
  assume a: "timers_inv w" "\<not> truthy_handle (intervalId (engine w))"
  have t: "t \<in> set (advance_timers w)" using Cons by simp
  then have "t \<in> set (timers w)" by (simp add: advance_timers_def)
  then have "0 < timerId t" using a(1) by (simp add: timers_inv_def)
  moreover have "intervalId (engine w) = Some (timerId t)" using a(1) t by (simp add: timers_inv_def)
  ultimately show ?thesis using a(2) by (simp add: truthy_handle_def)
qed

lemma inv_stop: "timers_inv w \<Longrightarrow> timers_inv (stop w) \<and> advance_timers (stop w) = []"
proof -
  assume a: "timers_inv w"
  have adv: "advance_timers (stop w) = []"
  proof (cases "truthy_handle (intervalId (engine w))")
    case True
    then show ?thesis using adv_clear_interval[OF a]
      by (simp add: advance_timers_def stop_timers)
  next
    case False
    then show ?thesis using inv_no_handle[OF a False] by (simp add: advance_timers_def stop_timers)
  qed
  have sub: "set (timers (stop w)) \<subseteq> set (timers w)" by (auto simp: stop_timers)
  have d: "distinct (map timerId (timers (stop w)))"
    using a by (simp add: timers_inv_def stop_timers distinct_map_filter)
  have h: "\<forall>h. intervalId (engine (stop w)) = Some h \<longrightarrow> h < nextTimerId w"
    using a by (simp add: timers_inv_def stop_engine)
  have "timers_inv (stop w)"
    unfolding timers_inv_def adv
    using a sub d h unfolding timers_inv_def by auto
  with adv show ?thesis by simp
qed

lemma inv_install:
  assumes "timers_inv w" "advance_timers w = []" "isPlaying (state (engine w))"
    and "cb = AdvanceSentence \<longrightarrow> k = Timeout" and "cb \<noteq> SaveStateCallback"
  shows "timers_inv (set_intervalId (Some (fst (setTimer k cb d w))) (snd (setTimer k cb d w)))"
    and "advance_timers (set_intervalId (Some (fst (setTimer k cb d w))) (snd (setTimer k cb d w))) =
           [\<lparr> timerId = nextTimerId w, timerKind = k, timerDelay = d, timerCallback = cb \<rparr>]"
proof -
  let ?w' = "set_intervalId (Some (fst (setTimer k cb d w))) (snd (setTimer k cb d w))"
  show adv: "advance_timers ?w' = [\<lparr> timerId = nextTimerId w, timerKind = k, timerDelay = d, timerCallback = cb \<rparr>]"
    using assms(2,5) by (simp add: advance_timers_def)
  have fresh: "nextTimerId w \<notin> timerId ` set (timers w)" using assms(1) by (auto simp: timers_inv_def)
  show "timers_inv ?w'"
    unfolding timers_inv_def adv
    using assms(1,3,4) fresh unfolding timers_inv_def by (auto simp: less_Suc_eq)
qed

lemma inv_advanceSentence:
  assumes "timers_inv w" "advance_timers w = []"
  shows "timers_inv (advanceSentence w)"
proof (cases "sentenceIndex (state (engine w)) < int (length (sentenceWordMap (engine w))) - 1")
  case False
  then show ?thesis using inv_stop[OF assms(1)] by (simp add: advanceSentence_def)
next
  case True
  let ?w2 = "saveStateDebounced (Finite 2000) (focus_sentence (sentenceIndex (state (engine w)) + 1) w)"
  have i2: "timers_inv ?w2" using assms(1) by (simp add: inv_saveStateDebounced)
  have a2: "advance_timers ?w2 = []" using assms(2) by simp
  show ?thesis
  proof (cases "nth_opt (sentenceWordMap (engine ?w2)) (sentenceIndex (state (engine ?w2)))")
    case None
    then show ?thesis using True inv_stop[OF i2] by (simp add: advanceSentence_def Let_def)
  next
    case (Some sp)
    show ?thesis
    proof (cases "isPlaying (state (engine ?w2)) \<and> mode (state (engine ?w2)) = ''sentence''")
      case False
      then show ?thesis using True Some i2 by (auto simp add: advanceSentence_def Let_def)
    next
      case pl: True
      then have p: "isPlaying (state (engine ?w2))" by simp
      from inv_install(1)[OF i2 a2 p, of AdvanceSentence Timeout]
      show ?thesis using True Some pl by (simp add: advanceSentence_def Let_def case_prod_beta)
    qed
  qed
qed

lemma inv_advanceWord: "timers_inv w \<Longrightarrow> timers_inv (advanceWord w)"
  using inv_stop[of w]
  by (simp add: advanceWord_def inv_saveStateDebounced inv_upd_keep)

lemma inv_start: "timers_inv w \<Longrightarrow> timers_inv (start w)"
proof (cases "isPlaying (state (engine w))")
  case True
  assume "timers_inv w"
  then show ?thesis using True by (simp add: start_def)
next
  case False
  assume a: "timers_inv w"
  let ?w1 = "upd_state (\<lambda>s. s\<lparr>isPlaying := True\<rparr>) w"
  have a0: "advance_timers w = []" using inv_not_playing[OF a False] .
  then have a1: "advance_timers ?w1 = []" by simp
  have i1: "timers_inv ?w1" using a a0 unfolding timers_inv_def by simp
  have p1: "isPlaying (state (engine ?w1))" by simp
  show ?thesis
  proof (cases "mode (state (engine ?w1)) = ''sentence''")
    case True
    then show ?thesis using False inv_advanceSentence[OF i1 a1] by (simp add: start_def Let_def)
  next
    case w: False
    from inv_install(1)[OF i1 a1 p1, of AdvanceWord Interval]
    show ?thesis using False w by (simp add: start_def Let_def case_prod_beta)
  qed
qed

lemma inv_config:
  "timers_inv (w\<lparr> engine := (engine w)\<lparr> config := c \<rparr> \<rparr>) = timers_inv w"
  by (rule timers_inv_tview) (simp add: tview_def)

lemma inv_setSpeed: "timers_inv w \<Longrightarrow> timers_inv (setSpeed v w)"
proof -
  assume a: "timers_inv w"
  let ?w1 = "w\<lparr> engine := (engine w)\<lparr> config := (config (engine w))\<lparr> wpm := v \<rparr> \<rparr> \<rparr>"
  have i1: "timers_inv ?w1" using a by (simp add: inv_config)
  show ?thesis
  proof (cases "isPlaying (state (engine ?w1)) \<and> mode (state (engine ?w1)) = ''word''")
    case False
    then show ?thesis using i1 by (auto simp add: setSpeed_def Let_def)
  next
    case True
    let ?w3 = "clearTimer (intervalId (engine ?w1)) ?w1"
    have i3: "timers_inv ?w3" using inv_clearTimer[OF i1] .
    have a3: "advance_timers ?w3 = []" using adv_clear_interval[OF i1] .
    have p3: "isPlaying (state (engine ?w3))" using True by simp
    from inv_install(1)[OF i3 a3 p3, of AdvanceWord Interval]
    show ?thesis using True by (simp add: setSpeed_def Let_def case_prod_beta)
  qed
qed


lemma inv_toggleMode: "timers_inv w \<Longrightarrow> timers_inv (toggleMode w)"
proof -
  assume a: "timers_inv w"
  let ?w1 = "stop w"
  have i1: "timers_inv ?w1" using inv_stop[OF a] by simp
  let ?w3 = "upd_state (\<lambda>s. s\<lparr>mode := ''sentence'', sentenceIndex := 0\<rparr>) ?w1"
  let ?w2 = "if mode (state (engine ?w1)) = ''word'' then
                  (case find_sentence (focusIndex (state (engine ?w1))) 0 (sentenceWordMap (engine ?w3)) of
                        None \<Rightarrow> ?w3
                      | Some (i, sentenceMap) \<Rightarrow>
                          upd_state (\<lambda>s. s\<lparr> sentenceIndex := int i,
                                             focusIndex := startWordIndex sentenceMap \<rparr>) ?w3)
                else upd_state (\<lambda>s. s\<lparr> mode := ''word'' \<rparr>) ?w1"
  have "tview ?w2 = tview ?w1" by (simp add: tview_def split: option.splits)
  then have i2: "timers_inv ?w2" using i1 timers_inv_tview by blast
  have "toggleMode w = saveState (if isPlaying (state (engine w)) then start ?w2 else ?w2)"
    by (simp add: toggleMode_def Let_def)
  then show ?thesis using i2 inv_start[OF i2] by simp
qed

lemma inv_togglePlayPause: "timers_inv w \<Longrightarrow> timers_inv (togglePlayPause w)"
  using inv_stop[of w] by (simp add: togglePlayPause_def inv_start)

lemma inv_nextPage: "timers_inv w \<Longrightarrow> timers_inv (nextPage w)"
  by (simp add: nextPage_def Let_def inv_upd_keep)

lemma inv_prevPage: "timers_inv w \<Longrightarrow> timers_inv (prevPage w)"
  by (simp add: prevPage_def Let_def inv_upd_keep)

lemma inv_handleWheel: "timers_inv w \<Longrightarrow> timers_inv (handleWheel d w)"
  by (simp add: handleWheel_def inv_saveStateDebounced inv_upd_keep)

lemma find_timer: "find (\<lambda>t. timerId t = h) ts = Some t \<Longrightarrow> t \<in> set ts \<and> timerId t = h"
  by (induction ts) (auto split: if_splits)

lemma inv_fire: "timers_inv w \<Longrightarrow> timers_inv (fire h w)"
proof (cases "find (\<lambda>t. timerId t = h) (timers w)")
  case None
  assume "timers_inv w"
  then show ?thesis using None by (simp add: fire_def)
next
  case (Some t)
  assume a: "timers_inv w"
  from find_timer[OF Some] have t: "t \<in> set (timers w)" "timerId t = h" by simp_all
  let ?c = "clearTimer (Some h) w"
  have ic: "timers_inv ?c" using inv_clearTimer[OF a] .
  show ?thesis
  proof (cases "timerCallback t")
    case AdvanceWord
    then show ?thesis using Some a ic
      by (simp add: fire_def run_callback_def inv_advanceWord split: timer_kind.splits)
  next
    case SaveStateCallback
    then show ?thesis using Some a ic
      by (simp add: fire_def run_callback_def split: timer_kind.splits)
  next
    case AdvanceSentence
    then have ta: "t \<in> set (advance_timers w)" using t(1) by (simp add: advance_timers_def)
    then have k: "timerKind t = Timeout" and h: "intervalId (engine w) = Some h"
      using a AdvanceSentence t(2) unfolding timers_inv_def by auto
    have "advance_timers ?c = []" using adv_clear_interval[OF a] h by simp
    from inv_advanceSentence[OF ic this] show ?thesis
      using Some AdvanceSentence k by (simp add: fire_def run_callback_def)
  qed
qed

lemma inv_step: "timers_inv w \<Longrightarrow> timers_inv (step w ev)"
  using inv_stop[of w]
  by (cases ev) (simp_all add: inv_start inv_togglePlayPause inv_setSpeed inv_toggleMode
      inv_nextPage inv_prevPage inv_handleWheel inv_fire)

lemma inv_run: "timers_inv w \<Longrightarrow> timers_inv (run w evs)"
  unfolding run_def by (induction evs arbitrary: w) (simp_all add: inv_step)

lemma inv_initial: "intervalId e = None \<Longrightarrow> timers_inv (initial_world e)"
  by (simp add: timers_inv_def initial_world_def advance_timers_def)

lemma same_id_short:
  "distinct (map f xs) \<Longrightarrow> \<forall>x\<in>set xs. f x = h \<Longrightarrow> length xs \<le> 1"
  by (cases xs; cases "tl xs") auto

lemma inv_at_most_one: "timers_inv w \<Longrightarrow> length (advance_timers w) \<le> 1"
proof -
  assume a: "timers_inv w"
  show ?thesis
  proof (cases "intervalId (engine w)")
    case None
    then have "advance_timers w = []" using a by (cases "advance_timers w") (auto simp: timers_inv_def)
    then show ?thesis by simp
  next
    case (Some h)
    have d: "distinct (map timerId (advance_timers w))"
      using a by (simp add: timers_inv_def advance_timers_def distinct_map_filter)
    have "\<forall>t\<in>set (advance_timers w). timerId t = h" using a Some by (auto simp: timers_inv_def)
    from same_id_short[OF d this] show ?thesis .
  qed
qed

subsection \<open>Finding the sentence of a word\<close>



subsection \<open>One sentence step\<close>

lemma saveStateTimeout_frame [simp]:
  "saveStateTimeout (upd_state f w) = saveStateTimeout w"
  "saveStateTimeout (set_intervalId h w) = saveStateTimeout w"
  "saveStateTimeout (clearTimer h w) = saveStateTimeout w"
  "saveStateTimeout (focus_sentence i w) = saveStateTimeout w"
  "saveStateTimeout (snd (setTimer k cb d w)) = saveStateTimeout w"
  "saveStateTimeout (stop w) = saveStateTimeout w"
  by (simp_all add: upd_state_def set_intervalId_def clearTimer_def focus_sentence_def setTimer_def
      stop_def Let_def split: option.splits)

lemma advanceSentence_next:
  assumes "mode (state (engine w)) = ''sentence''" "isPlaying (state (engine w))"
    and "sentenceIndex (state (engine w)) < int (length (sentenceWordMap (engine w))) - 1"
    and "- 1 \<le> sentenceIndex (state (engine w))"
  shows "sentenceIndex (state (engine (advanceSentence w))) = sentenceIndex (state (engine w)) + 1"
    and "focusIndex (state (engine (advanceSentence w))) =
           startWordIndex (sentenceWordMap (engine w) ! nat (sentenceIndex (state (engine w)) + 1))"
    and "isPlaying (state (engine (advanceSentence w)))"
    and "mode (state (engine (advanceSentence w))) = ''sentence''"
    and "intervalId (engine (advanceSentence w)) = Some (Suc (nextTimerId w))"
    and "timers (advanceSentence w) = timers (saveStateDebounced (Finite 2000) w) @
           [\<lparr> timerId = Suc (nextTimerId w), timerKind = Timeout,
              timerDelay = js_mul (js_div (Finite (real (length (split_words (sentenceText
                  (sentenceWordMap (engine w) ! nat (sentenceIndex (state (engine w)) + 1)))))))
                  (wpm (config (engine w)))) (Finite 60000),
              timerCallback = AdvanceSentence \<rparr>]"
proof -
  let ?i = "sentenceIndex (state (engine w)) + 1"
  let ?sp = "sentenceWordMap (engine w) ! nat ?i"
  have n: "nth_opt (sentenceWordMap (engine w)) ?i = Some ?sp"
    using assms(3,4) by (simp add: nth_opt_def)
  have eq: "advanceSentence w =
     set_intervalId (Some (fst (setTimer Timeout AdvanceSentence
        (js_mul (js_div (Finite (real (length (split_words (sentenceText ?sp))))) (wpm (config (engine w)))) (Finite 60000))
        (saveStateDebounced (Finite 2000) (focus_sentence ?i w)))))
      (snd (setTimer Timeout AdvanceSentence
        (js_mul (js_div (Finite (real (length (split_words (sentenceText ?sp))))) (wpm (config (engine w)))) (Finite 60000))
        (saveStateDebounced (Finite 2000) (focus_sentence ?i w))))"
    using assms n by (simp add: advanceSentence_def Let_def case_prod_beta focus_sentence_engine)
  show "sentenceIndex (state (engine (advanceSentence w))) = sentenceIndex (state (engine w)) + 1"
    unfolding eq by (simp add: focus_sentence_engine)
  show "focusIndex (state (engine (advanceSentence w))) = startWordIndex ?sp"
    unfolding eq using n by (simp add: focus_sentence_engine)
  show "isPlaying (state (engine (advanceSentence w)))"
    unfolding eq using assms(2) by (simp add: focus_sentence_engine)
  show "mode (state (engine (advanceSentence w))) = ''sentence''"
    unfolding eq using assms(1) by (simp add: focus_sentence_engine)
  show "intervalId (engine (advanceSentence w)) = Some (Suc (nextTimerId w))"
    unfolding eq by simp
  show "timers (advanceSentence w) = timers (saveStateDebounced (Finite 2000) w) @
           [\<lparr> timerId = Suc (nextTimerId w), timerKind = Timeout,
              timerDelay = js_mul (js_div (Finite (real (length (split_words (sentenceText ?sp))))) (wpm (config (engine w)))) (Finite 60000),
              timerCallback = AdvanceSentence \<rparr>]"
    unfolding eq by simp
qed

lemma advanceSentence_end:
  assumes "\<not> sentenceIndex (state (engine w)) < int (length (sentenceWordMap (engine w))) - 1"
  shows "\<not> isPlaying (state (engine (advanceSentence w)))"
    and "sentenceIndex (state (engine (advanceSentence w))) = sentenceIndex (state (engine w))"
    and "focusIndex (state (engine (advanceSentence w))) = focusIndex (state (engine w))"
    and "set (timers (advanceSentence w)) \<subseteq> set (timers w)"
  using assms by (auto simp: advanceSentence_def stop_engine stop_timers)


subsection \<open>The two directions of a mode change\<close>



subsection \<open>The example document\<close>

lemma map_of_dr_smith: "snd (initializeSentences dr_smith_words) =
     [\<lparr> sentenceIdx = 0, startWordIndex = 0, endWordIndex = 2, sentenceText = ''Dr. Smith arrived.'' \<rparr>,
      \<lparr> sentenceIdx = 1, startWordIndex = 3, endWordIndex = 4, sentenceText = ''He left.'' \<rparr>]"
  unfolding dr_smith_words_def by code_simp

lemma example_engine_ok:
  assumes "wl \<noteq> []" "\<forall>w\<in>set wl. w \<noteq> []"
  shows "new_WordMarqueeEngine (full_page ten_px) (Some CONFIG) (Array wl) = Inr (example_engine wl)"
    and "config (example_engine wl) = CONFIG"
    and "state (example_engine wl) = fresh_state"
    and "intervalId (example_engine wl) = None"
    and "metricsWords (metrics (example_engine wl)) = wl"
    and "sentenceWordMap (example_engine wl) = snd (initializeSentences wl)"
proof -
  obtain e where e: "new_WordMarqueeEngine (full_page ten_px) (Some CONFIG) (Array wl) = Inr e"
    using new_engine_ok[OF assms, of "full_page ten_px" CONFIG] by (auto simp: full_page_def)
  then have ee: "example_engine wl = e" by (simp add: example_engine_def)
  show "new_WordMarqueeEngine (full_page ten_px) (Some CONFIG) (Array wl) = Inr (example_engine wl)"
    using e ee by simp
  note f = new_engine_fields[OF e]
  show "config (example_engine wl) = CONFIG" "state (example_engine wl) = fresh_state"
    "intervalId (example_engine wl) = None" "metricsWords (metrics (example_engine wl)) = wl"
    "sentenceWordMap (example_engine wl) = snd (initializeSentences wl)"
    using f ee by simp_all
qed

lemma dr_smith_engine:
  "new_WordMarqueeEngine (full_page ten_px) (Some CONFIG) (Array dr_smith_words) = Inr (example_engine dr_smith_words)"
  "config (example_engine dr_smith_words) = CONFIG"
  "state (example_engine dr_smith_words) = fresh_state"
  "intervalId (example_engine dr_smith_words) = None"
  "metricsWords (metrics (example_engine dr_smith_words)) = dr_smith_words"
  "sentenceWordMap (example_engine dr_smith_words) =
     [\<lparr> sentenceIdx = 0, startWordIndex = 0, endWordIndex = 2, sentenceText = ''Dr. Smith arrived.'' \<rparr>,
      \<lparr> sentenceIdx = 1, startWordIndex = 3, endWordIndex = 4, sentenceText = ''He left.'' \<rparr>]"
proof -
  have a: "dr_smith_words \<noteq> []" "\<forall>w\<in>set dr_smith_words. w \<noteq> []" by (simp_all add: dr_smith_words_def)
  note e = example_engine_ok[OF a]
  show "new_WordMarqueeEngine (full_page ten_px) (Some CONFIG) (Array dr_smith_words) = Inr (example_engine dr_smith_words)"
  "config (example_engine dr_smith_words) = CONFIG"
  "state (example_engine dr_smith_words) = fresh_state"
  "intervalId (example_engine dr_smith_words) = None"
  "metricsWords (metrics (example_engine dr_smith_words)) = dr_smith_words"
    using e by simp_all
  show "sentenceWordMap (example_engine dr_smith_words) =
     [\<lparr> sentenceIdx = 0, startWordIndex = 0, endWordIndex = 2, sentenceText = ''Dr. Smith arrived.'' \<rparr>,
      \<lparr> sentenceIdx = 1, startWordIndex = 3, endWordIndex = 4, sentenceText = ''He left.'' \<rparr>]"
    using e(6) map_of_dr_smith by simp
qed

lemma hi_go_on_engine:
  "new_WordMarqueeEngine (full_page ten_px) (Some CONFIG) (Array hi_go_on_words) = Inr (example_engine hi_go_on_words)"
  "config (example_engine hi_go_on_words) = CONFIG"
  "state (example_engine hi_go_on_words) = fresh_state"
  "intervalId (example_engine hi_go_on_words) = None"
  "metricsWords (metrics (example_engine hi_go_on_words)) = hi_go_on_words"
  "sentenceWordMap (example_engine hi_go_on_words) =
     [\<lparr> sentenceIdx = 0, startWordIndex = 0, endWordIndex = 0, sentenceText = ''Hi.'' \<rparr>,
      \<lparr> sentenceIdx = 1, startWordIndex = 1, endWordIndex = 2, sentenceText = ''Go on.'' \<rparr>]"
proof -
  have a: "hi_go_on_words \<noteq> []" "\<forall>w\<in>set hi_go_on_words. w \<noteq> []" by (simp_all add: hi_go_on_words_def)
  note e = example_engine_ok[OF a]
  show "new_WordMarqueeEngine (full_page ten_px) (Some CONFIG) (Array hi_go_on_words) = Inr (example_engine hi_go_on_words)"
  "config (example_engine hi_go_on_words) = CONFIG"
  "state (example_engine hi_go_on_words) = fresh_state"
  "intervalId (example_engine hi_go_on_words) = None"
  "metricsWords (metrics (example_engine hi_go_on_words)) = hi_go_on_words"
    using e by simp_all
  show "sentenceWordMap (example_engine hi_go_on_words) =
     [\<lparr> sentenceIdx = 0, startWordIndex = 0, endWordIndex = 0, sentenceText = ''Hi.'' \<rparr>,
      \<lparr> sentenceIdx = 1, startWordIndex = 1, endWordIndex = 2, sentenceText = ''Go on.'' \<rparr>]"
    using e(6) map_of_Hi_Go_on by (simp add: hi_go_on_words_def)
qed

lemma hi_abc_engine:
  "new_WordMarqueeEngine (full_page ten_px) (Some CONFIG) (Array hi_abc_words) = Inr (example_engine hi_abc_words)"
  "config (example_engine hi_abc_words) = CONFIG"
  "state (example_engine hi_abc_words) = fresh_state"
  "intervalId (example_engine hi_abc_words) = None"
  "metricsWords (metrics (example_engine hi_abc_words)) = hi_abc_words"
  "sentenceWordMap (example_engine hi_abc_words) =
     [\<lparr> sentenceIdx = 0, startWordIndex = 0, endWordIndex = 0, sentenceText = ''Hi.'' \<rparr>,
      \<lparr> sentenceIdx = 1, startWordIndex = 1, endWordIndex = 1, sentenceText = CHR 0x22 # ''Abc'' \<rparr>]"
proof -
  have a: "hi_abc_words \<noteq> []" "\<forall>w\<in>set hi_abc_words. w \<noteq> []" by (simp_all add: hi_abc_words_def)
  note e = example_engine_ok[OF a]
  show "new_WordMarqueeEngine (full_page ten_px) (Some CONFIG) (Array hi_abc_words) = Inr (example_engine hi_abc_words)"
  "config (example_engine hi_abc_words) = CONFIG"
  "state (example_engine hi_abc_words) = fresh_state"
  "intervalId (example_engine hi_abc_words) = None"
  "metricsWords (metrics (example_engine hi_abc_words)) = hi_abc_words"
    using e by simp_all
  show "sentenceWordMap (example_engine hi_abc_words) =
     [\<lparr> sentenceIdx = 0, startWordIndex = 0, endWordIndex = 0, sentenceText = ''Hi.'' \<rparr>,
      \<lparr> sentenceIdx = 1, startWordIndex = 1, endWordIndex = 1, sentenceText = CHR 0x22 # ''Abc'' \<rparr>]"
    using e(6) map_of_Hi_quote_Abc by (simp add: hi_abc_words_def)
qed

lemma length_examples [simp]:
  "length dr_smith_words = 5" "length hi_go_on_words = 3" "length hi_abc_words = 1"
  by (simp_all add: dr_smith_words_def hi_go_on_words_def hi_abc_words_def)

lemmas method_defs = run_def toggleMode_def handleWheel_def start_def advanceSentence_def advanceWord_def
  setSpeed_def nextPage_def prevPage_def stop_engine stop_timers focus_sentence_engine Let_def
  initial_world_def fresh_state_def truthy_handle_def nth_opt_def case_prod_beta getWordCount_def
  CONFIG_def

section \<open>The stored text\<close>

subsection \<open>Digits\<close>

text \<open>
  The digits of a number are decimal digits, start with a non-zero one unless the number is
  zero, and give the number back when they are read; trailing zeros can be split off.
\<close>

lemma nat_digits_nonempty: "nat_digits n \<noteq> []"
  by (subst nat_digits.simps) simp

lemma nat_digits_lt: "d \<in> set (nat_digits n) \<Longrightarrow> d < 10"
proof (induction n arbitrary: d rule: nat_digits.induct)
  case (1 n)
  then show ?case by (subst (asm) (2) nat_digits.simps) (auto split: if_splits)
qed

lemma foldl_dval_app: "foldl (\<lambda>a d. 10 * a + d) a (xs @ [x]) = 10 * foldl (\<lambda>a d. 10 * a + d) a xs + x"
  by simp

lemma dval_nat_digits: "dval (nat_digits n) = n"
proof (induction n rule: nat_digits.induct)
  case (1 n)
  show ?case
  proof (cases "n < 10")
    case True
    then show ?thesis by (subst nat_digits.simps) (simp add: dval_def)
  next
    case False
    with 1 have "dval (nat_digits (n div 10)) = n div 10" by simp
    with False show ?thesis by (subst nat_digits.simps) (simp add: dval_def)
  qed
qed

lemma hd_nat_digits: "0 < n \<Longrightarrow> hd (nat_digits n) \<noteq> 0"
proof (induction n rule: nat_digits.induct)
  case (1 n)
  show ?case
  proof (cases "n < 10")
    case True
    with 1(2) show ?thesis by (subst nat_digits.simps) simp
  next
    case False
    then have "0 < n div 10" by simp
    with 1(1) False have "hd (nat_digits (n div 10)) \<noteq> 0" by simp
    with False show ?thesis by (subst nat_digits.simps) (simp add: nat_digits_nonempty)
  qed
qed

lemma nat_digits_0: "nat_digits 0 = [0]"
  by (subst nat_digits.simps) simp

lemma dval_append: "dval (xs @ ys) = dval xs * 10 ^ length ys + dval ys"
proof (induction ys rule: rev_induct)
  case Nil
  then show ?case by (simp add: dval_def)
next
  case (snoc y ys)
  have "dval (xs @ ys @ [y]) = 10 * dval (xs @ ys) + y" by (simp add: dval_def)
  also have "\<dots> = 10 * (dval xs * 10 ^ length ys + dval ys) + y" using snoc by simp
  also have "\<dots> = dval xs * 10 ^ length (ys @ [y]) + dval (ys @ [y])" by (simp add: dval_def algebra_simps)
  finally show ?case by simp
qed

lemma dval_replicate_0: "dval (replicate m 0) = 0"
  by (induction m) (simp_all add: dval_def)

lemma strip_zeros_decomp: "ds = strip_zeros ds @ replicate (length ds - length (strip_zeros ds)) 0"
proof -
  have "rev ds = takeWhile (\<lambda>d. d = 0) (rev ds) @ dropWhile (\<lambda>d. d = 0) (rev ds)" by simp
  moreover have "takeWhile (\<lambda>d. d = 0) (rev ds) = replicate (length (takeWhile (\<lambda>d. d = 0) (rev ds))) 0"
    by (rule replicate_length_same[symmetric]) (auto dest: set_takeWhileD)
  ultimately have "rev ds = replicate (length (takeWhile (\<lambda>d. d = 0) (rev ds))) 0 @ dropWhile (\<lambda>d. d = 0) (rev ds)"
    by simp
  then have "ds = rev (replicate (length (takeWhile (\<lambda>d. d = 0) (rev ds))) 0 @ dropWhile (\<lambda>d. d = 0) (rev ds))"
    by (metis rev_rev_ident)
  then have e: "ds = strip_zeros ds @ replicate (length (takeWhile (\<lambda>d. d = 0) (rev ds))) 0"
    by (simp add: strip_zeros_def)
  have "length ds = length (strip_zeros ds) + length (takeWhile (\<lambda>d. d = 0) (rev ds))"
    by (subst e) simp
  then have "length (takeWhile (\<lambda>d. d = 0) (rev ds)) = length ds - length (strip_zeros ds)" by simp
  with e show ?thesis by simp
qed

lemma strip_zeros_hd: "ds \<noteq> [] \<Longrightarrow> hd ds \<noteq> 0 \<Longrightarrow> strip_zeros ds \<noteq> [] \<and> hd (strip_zeros ds) = hd ds"
proof -
  assume a: "ds \<noteq> []" "hd ds \<noteq> 0"
  have ne: "strip_zeros ds \<noteq> []"
  proof
    assume "strip_zeros ds = []"
    with strip_zeros_decomp[of ds] have "ds = replicate (length ds) 0" by simp
    with a show False by (metis hd_replicate replicate_empty)
  qed
  moreover from ne strip_zeros_decomp[of ds] have "hd ds = hd (strip_zeros ds)"
    by (metis hd_append2)
  ultimately show ?thesis by simp
qed

lemma set_strip_zeros: "set (strip_zeros ds) \<subseteq> set ds"
  by (metis strip_zeros_decomp Un_upper1 set_append)


subsection \<open>Reading an integer literal\<close>

text \<open>
  The three parts of a number literal on the texts \<open>Number::toString\<close> writes for an
  integer, in plain and in exponent form, and the value that is read back.
\<close>

lemma of_char_digit: "d < 10 \<Longrightarrow> (of_char (digit_char d) :: nat) = 48 + d"
  by (simp add: digit_char_def)

lemma is_digit_D: "d < 10 \<Longrightarrow> is_digit (digit_sym d)"
  by (simp add: is_digit_def digit_sym_def of_char_digit)

lemma digit_value_D: "d < 10 \<Longrightarrow> digit_value (digit_sym d) = d"
  by (simp add: digit_value_def digit_sym_def of_char_digit)

lemma D_eq_Ch: "d < 10 \<Longrightarrow> digit_sym d = Ch c \<Longrightarrow> (of_char c :: nat) = 48 + d"
  using of_char_digit[of d] by (simp add: digit_sym_def)

lemma D_0: "digit_sym 0 = Ch (CHR ''0'')"
proof -
  have "char_of (of_char (CHR ''0'') :: nat) = CHR ''0''" by (rule char_of_char)
  then show ?thesis by (simp add: digit_sym_def digit_char_def)
qed

lemma D_neq:
  assumes "d < 10"
  shows "digit_sym d \<noteq> Ch (CHR ''.'')" "digit_sym d \<noteq> Ch (CHR ''e'')" "digit_sym d \<noteq> Ch (CHR ''E'')"
    "digit_sym d \<noteq> Ch (CHR ''-'')" "digit_sym d \<noteq> Ch (CHR ''+'')" "digit_sym d = Ch (CHR ''0'') \<longleftrightarrow> d = 0"
proof -
  show "digit_sym d \<noteq> Ch (CHR ''.'')" using D_eq_Ch[OF assms, of "CHR ''.''"] assms by auto
  show "digit_sym d \<noteq> Ch (CHR ''e'')" using D_eq_Ch[OF assms, of "CHR ''e''"] assms by auto
  show "digit_sym d \<noteq> Ch (CHR ''E'')" using D_eq_Ch[OF assms, of "CHR ''E''"] assms by auto
  show "digit_sym d \<noteq> Ch (CHR ''-'')" using D_eq_Ch[OF assms, of "CHR ''-''"] assms by auto
  show "digit_sym d \<noteq> Ch (CHR ''+'')" using D_eq_Ch[OF assms, of "CHR ''+''"] assms by auto
  show "digit_sym d = Ch (CHR ''0'') \<longleftrightarrow> d = 0" using D_eq_Ch[OF assms, of "CHR ''0''"] D_0 by auto
qed

lemma Ch_digit_char: "Ch (digit_char x) = digit_sym x"
  by (simp add: digit_sym_def)

lemma takeWhile_D:
  assumes "\<forall>d\<in>set ds. d < 10" and "r = [] \<or> \<not> is_digit (hd r)"
  shows "takeWhile is_digit (map digit_sym ds @ r) = map digit_sym ds"
    and "dropWhile is_digit (map digit_sym ds @ r) = r"
proof -
  have a: "\<forall>x\<in>set (map digit_sym ds). is_digit x" using assms(1) by (auto simp: is_digit_D)
  have b: "takeWhile is_digit r = []" "dropWhile is_digit r = r" using assms(2) by (cases r; simp)+
  show "takeWhile is_digit (map digit_sym ds @ r) = map digit_sym ds"
    by (subst takeWhile_append2) (use a b in auto)
  show "dropWhile is_digit (map digit_sym ds @ r) = r"
    by (subst dropWhile_append2) (use a b in auto)
qed

lemma digits_value_D: "\<forall>d\<in>set ds. d < 10 \<Longrightarrow> digits_value (map digit_sym ds) = dval ds"
proof (induction ds rule: rev_induct)
  case Nil
  then show ?case by (simp add: digits_value_def dval_def)
next
  case (snoc x xs)
  then have "digits_value (map digit_sym xs) = dval xs" "digit_value (digit_sym x) = x" by (simp_all add: digit_value_D)
  then show ?case by (simp add: digits_value_def dval_def)
qed

lemma int_part_D:
  assumes "ds \<noteq> []" and "\<forall>d\<in>set ds. d < 10" and "hd ds \<noteq> 0 \<or> ds = [0]"
    and "r = [] \<or> \<not> is_digit (hd r)"
  shows "int_part (map digit_sym ds @ r) = Some (map digit_sym ds, r)"
proof (cases ds)
  case Nil
  with assms(1) show ?thesis by simp
next
  case (Cons d rest)
  with assms(2) have d: "d < 10" by simp
  show ?thesis
  proof (cases "d = 0")
    case True
    with assms(3) Cons have "ds = [0]" by simp
    then show ?thesis using D_neq(6)[of 0] by (simp add: int_part_def)
  next
    case False
    then have "digit_sym d \<noteq> Ch (CHR ''0'')" using D_neq(6)[OF d] by simp
    moreover have "is_digit (digit_sym d)" using d by (rule is_digit_D)
    ultimately have "int_part (map digit_sym ds @ r) =
        Some (takeWhile is_digit (map digit_sym ds @ r), dropWhile is_digit (map digit_sym ds @ r))"
      using Cons by (simp add: int_part_def)
    then show ?thesis using takeWhile_D[OF assms(2,4)] by simp
  qed
qed

lemma frac_part_none: "no_continue r \<Longrightarrow> frac_part r = Some ([], r)"
  by (cases r) (simp_all add: frac_part_def no_continue_def)

lemma exp_part_none: "no_continue r \<Longrightarrow> exp_part r = Some (0, r)"
  by (cases r) (simp_all add: exp_part_def no_continue_def)

lemma no_continue_digit: "no_continue r \<Longrightarrow> r = [] \<or> \<not> is_digit (hd r)"
  by (cases r) (simp_all add: no_continue_def)

lemma frac_part_D:
  assumes "fs \<noteq> []" and "\<forall>d\<in>set fs. d < 10" and "r = [] \<or> \<not> is_digit (hd r)"
  shows "frac_part (Ch (CHR ''.'') # map digit_sym fs @ r) = Some (map digit_sym fs, r)"
  using takeWhile_D[OF assms(2,3)] assms(1) by (simp add: frac_part_def)

lemma exp_part_plus:
  assumes "es \<noteq> []" and "\<forall>d\<in>set es. d < 10" and "r = [] \<or> \<not> is_digit (hd r)"
  shows "exp_part (Ch (CHR ''e'') # Ch (CHR ''+'') # map digit_sym es @ r) = Some (int (dval es), r)"
  using takeWhile_D[OF assms(2,3)] assms(1) digits_value_D[OF assms(2)]
  by (simp add: exp_part_def Let_def)

lemma unsigned_plain:
  assumes "ds \<noteq> []" and "\<forall>d\<in>set ds. d < 10" and "hd ds \<noteq> 0 \<or> ds = [0]" and "no_continue r"
  shows "unsigned_number (map digit_sym ds @ r) = Some (real (dval ds), r)"
  using int_part_D[OF assms(1,2,3) no_continue_digit[OF assms(4)]]
    frac_part_none[OF assms(4)] exp_part_none[OF assms(4)] digits_value_D[OF assms(2)]
  by (simp add: unsigned_number_def)

lemma unsigned_exponent:
  assumes "d < 10" and "d \<noteq> 0" and "\<forall>x\<in>set fs. x < 10" and "es \<noteq> []" and "\<forall>x\<in>set es. x < 10"
    and "length fs \<le> dval es" and "r = [] \<or> \<not> is_digit (hd r)"
  shows "unsigned_number (digit_sym d # (if fs = [] then [] else Ch (CHR ''.'') # map digit_sym fs)
            @ Ch (CHR ''e'') # Ch (CHR ''+'') # map digit_sym es @ r)
         = Some (real (dval (d # fs) * 10 ^ (dval es - length fs)), r)"
proof -
  let ?tail = "Ch (CHR ''e'') # Ch (CHR ''+'') # map digit_sym es @ r"
  let ?mid = "(if fs = [] then [] else Ch (CHR ''.'') # map digit_sym fs) @ ?tail"
  have nd: "?mid = [] \<or> \<not> is_digit (hd ?mid)" by (simp add: is_digit_def)
  have "int_part (map digit_sym [d] @ ?mid) = Some (map digit_sym [d], ?mid)"
    by (rule int_part_D) (use assms(1,2) nd in simp_all)
  then have i: "int_part (digit_sym d # ?mid) = Some ([digit_sym d], ?mid)" by simp
  have t: "?tail = [] \<or> \<not> is_digit (hd ?tail)" by (simp add: is_digit_def)
  have f: "frac_part ?mid = Some (map digit_sym fs, ?tail)"
  proof (cases "fs = []")
    case True
    then show ?thesis by (simp add: frac_part_def)
  next
    case False
    then show ?thesis using frac_part_D[OF False assms(3) t] by simp
  qed
  have e: "exp_part ?tail = Some (int (dval es), r)"
    by (rule exp_part_plus[OF assms(4,5,7)])
  have v: "digits_value ([digit_sym d] @ map digit_sym fs) = dval (d # fs)"
    using digits_value_D[of "d # fs"] assms(1,3) by simp
  have "unsigned_number (digit_sym d # ?mid) =
      Some (real (dval (d # fs)) * 10 ^ nat (int (dval es) - int (length fs)), r)"
    unfolding unsigned_number_def i using f e v assms(6) by (simp add: Let_def)
  moreover have "nat (int (dval es) - int (length fs)) = dval es - length fs" by simp
  ultimately show ?thesis by simp
qed

lemma map_Ch_digits: "map Ch (map digit_char ds) = map digit_sym ds"
  by (simp add: Ch_digit_char)

lemma unsigned_nat_text:
  assumes "no_continue r"
  shows "unsigned_number (map Ch (nat_text n) @ r) = Some (real n, r)"
proof -
  let ?ds = "nat_digits n"
  have lt: "\<forall>d\<in>set ?ds. d < 10" using nat_digits_lt by blast
  have ne: "?ds \<noteq> []" by (rule nat_digits_nonempty)
  have h: "hd ?ds \<noteq> 0 \<or> ?ds = [0]"
    using hd_nat_digits[of n] nat_digits_0 by (cases "n = 0") auto
  show ?thesis
  proof (cases "length ?ds \<le> 21")
    case True
    then have "map Ch (nat_text n) = map digit_sym ?ds" by (simp add: nat_text_def Ch_digit_char)
    then show ?thesis using unsigned_plain[OF ne lt h assms] by (simp add: dval_nat_digits)
  next
    case False
    then have n0: "0 < n" using nat_digits_0 by (cases "n = 0") auto
    let ?s = "strip_zeros ?ds"
    let ?es = "nat_digits (length ?ds - 1)"
    from hd_nat_digits[OF n0] have hd0: "hd ?ds \<noteq> 0" .
    from strip_zeros_hd[OF ne hd0] have s: "?s \<noteq> []" "hd ?s = hd ?ds" by simp_all
    then obtain d fs where dfs: "?s = d # fs" by (cases ?s) auto
    have slt: "\<forall>x\<in>set ?s. x < 10" using lt set_strip_zeros[of ?ds] by blast
    have d: "d < 10" "d \<noteq> 0" "\<forall>x\<in>set fs. x < 10" using slt s(2) hd0 dfs by auto
    have len: "length ?s \<le> length ?ds" by (subst (2) strip_zeros_decomp[of ?ds]) simp
    have le: "length fs \<le> dval ?es" using len dfs by (simp add: dval_nat_digits)
    have shape: "map Ch (nat_text n) =
        digit_sym d # (if fs = [] then [] else Ch (CHR ''.'') # map digit_sym fs) @ Ch (CHR ''e'') # Ch (CHR ''+'') # map digit_sym ?es"
      using False dfs by (simp add: nat_text_def Let_def Ch_digit_char)
    have A: "unsigned_number (map Ch (nat_text n) @ r) =
        Some (real (dval (d # fs) * 10 ^ (dval ?es - length fs)), r)"
      unfolding shape
      using unsigned_exponent[OF d(1,2,3) nat_digits_nonempty _ le no_continue_digit[OF assms]]
        nat_digits_lt by simp
    have B: "dval (d # fs) * 10 ^ (dval ?es - length fs) = n"
    proof -
      have k: "dval ?es - length fs = length ?ds - length ?s" using dfs by (simp add: dval_nat_digits)
      have "dval ?s * 10 ^ (length ?ds - length ?s) = dval (?s @ replicate (length ?ds - length ?s) 0)"
        by (simp add: dval_append dval_replicate_0)
      then have "dval (d # fs) * 10 ^ (dval ?es - length fs)
          = dval (?s @ replicate (length ?ds - length ?s) 0)"
        unfolding k dfs[symmetric] .
      also have "\<dots> = dval ?ds" using strip_zeros_decomp[of ?ds] by simp
      finally show ?thesis by (simp add: dval_nat_digits)
    qed
    from A show ?thesis unfolding B .
  qed
qed

lemma nat_text_hd: "\<exists>d rest. map Ch (nat_text n) = digit_sym d # rest \<and> d < 10"
proof -
  let ?ds = "nat_digits n"
  have ne: "?ds \<noteq> []" by (rule nat_digits_nonempty)
  have lt: "hd ?ds < 10" using nat_digits_lt[of "hd ?ds" n] ne by simp
  show ?thesis
  proof (cases "length ?ds \<le> 21")
    case True
    then have "map Ch (nat_text n) = map digit_sym ?ds" by (simp add: nat_text_def Ch_digit_char)
    then have "map Ch (nat_text n) = digit_sym (hd ?ds) # map digit_sym (tl ?ds)" using ne by (cases ?ds) simp_all
    then show ?thesis using lt by (intro exI[of _ "hd ?ds"] exI[of _ "map digit_sym (tl ?ds)"]) simp
  next
    case False
    then have n0: "0 < n" using nat_digits_0 by (cases "n = 0") auto
    from strip_zeros_hd[OF ne hd_nat_digits[OF n0]]
    have "hd (map Ch (nat_text n)) = digit_sym (hd ?ds)" "map Ch (nat_text n) \<noteq> []" using False
      by (simp_all add: nat_text_def Let_def Ch_digit_char)
    then have "map Ch (nat_text n) = digit_sym (hd ?ds) # tl (map Ch (nat_text n))"
      by (metis list.collapse)
    then show ?thesis using lt
      by (intro exI[of _ "hd ?ds"] exI[of _ "tl (map Ch (nat_text n))"]) simp
  qed
qed

lemma parse_number_int_text:
  assumes "no_continue r"
  shows "parse_number (map Ch (int_text i) @ r) = Some (real_of_int i, r)"
proof (cases "i < 0")
  case True
  then have "parse_number (map Ch (int_text i) @ r) =
      (case unsigned_number (map Ch (nat_text (nat (- i))) @ r) of
         None \<Rightarrow> None | Some (x, r') \<Rightarrow> Some (- x, r'))"
    by (simp add: int_text_def parse_number_def)
  then show ?thesis using unsigned_nat_text[OF assms, of "nat (- i)"] True by simp
next
  case False
  from nat_text_hd[of "nat i"] obtain d rest where
    t: "map Ch (nat_text (nat i)) = digit_sym d # rest" "d < 10" by (elim exE conjE)
  then have "parse_number (map Ch (int_text i) @ r) = unsigned_number (map Ch (nat_text (nat i)) @ r)"
    using False D_neq(4)[of d] by (simp add: int_text_def parse_number_def)
  then show ?thesis using unsigned_nat_text[OF assms, of "nat i"] False by simp
qed


subsection \<open>Reading a quoted string\<close>

text \<open>Every escape that \<open>QuoteJSONString\<close> writes is read back as the character it stands for.\<close>

lemma hex_value_hex_char: "d < 16 \<Longrightarrow> hex_value (Ch (hex_char d)) = Some d"
proof -
  assume "d < 16"
  then have "d = 0 \<or> d = 1 \<or> d = 2 \<or> d = 3 \<or> d = 4 \<or> d = 5 \<or> d = 6 \<or> d = 7 \<or> d = 8 \<or> d = 9
      \<or> d = 10 \<or> d = 11 \<or> d = 12 \<or> d = 13 \<or> d = 14 \<or> d = 15" by arith
  then show ?thesis by (elim disjE) (simp_all add: hex_char_def hex_value_def)
qed

lemma parse_chars_escape:
  "parse_chars (map Ch (escape_char c) @ rest) =
     (case parse_chars rest of None \<Rightarrow> None | Some (s, r) \<Rightarrow> Some (c # s, r))"
proof -
  consider (named) "c = CHR 0x22 \<or> c = CHR 0x5C \<or> c = CHR 0x08 \<or> c = CHR 0x0C \<or> c = CHR 0x0A
        \<or> c = CHR 0x0D \<or> c = CHR 0x09"
    | (control) "\<not> (c = CHR 0x22 \<or> c = CHR 0x5C \<or> c = CHR 0x08 \<or> c = CHR 0x0C \<or> c = CHR 0x0A
        \<or> c = CHR 0x0D \<or> c = CHR 0x09)" "(of_char c :: nat) < 32"
    | (plain) "\<not> (c = CHR 0x22 \<or> c = CHR 0x5C \<or> c = CHR 0x08 \<or> c = CHR 0x0C \<or> c = CHR 0x0A
        \<or> c = CHR 0x0D \<or> c = CHR 0x09)" "\<not> (of_char c :: nat) < 32"
    by blast
  then show ?thesis
  proof cases
    case named
    then show ?thesis by (elim disjE) (auto simp: escape_char_def unescape_def split: option.splits)
  next
    case control
    let ?n = "of_char c :: nat"
    have h: "hex4 (Ch (CHR ''0'') # Ch (CHR ''0'') # Ch (hex_char (?n div 16)) # Ch (hex_char (?n mod 16)) # rest)
        = Some ?n"
    proof -
      have a: "hex_value (Ch (hex_char (?n div 16))) = Some (?n div 16)"
        by (rule hex_value_hex_char) (use control(2) in simp)
      have b: "hex_value (Ch (hex_char (?n mod 16))) = Some (?n mod 16)"
        by (rule hex_value_hex_char) simp
      have z: "hex_value (Ch (CHR ''0'')) = Some 0" by (simp add: hex_value_def)
      show ?thesis by (simp add: hex4_def a b z)
    qed
    have "map Ch (escape_char c) @ rest =
        Ch (CHR 0x5C) # Ch (CHR ''u'') # Ch (CHR ''0'') # Ch (CHR ''0'') # Ch (hex_char (?n div 16))
          # Ch (hex_char (?n mod 16)) # rest"
      using control by (simp add: escape_char_def)
    then show ?thesis using h control(2) by (simp cong: option.case_cong)
  next
    case plain
    then have "map Ch (escape_char c) @ rest = Ch c # rest" by (simp add: escape_char_def)
    then show ?thesis using plain by simp
  qed
qed

lemma parse_chars_body:
  "parse_chars (map Ch (concat (map escape_char s)) @ Ch (CHR 0x22) # r) = Some (s, r)"
proof (induction s)
  case Nil
  then show ?case by simp
next
  case (Cons c s)
  have "parse_chars (map Ch (concat (map escape_char (c # s))) @ Ch (CHR 0x22) # r)
      = parse_chars (map Ch (escape_char c) @ (map Ch (concat (map escape_char s)) @ Ch (CHR 0x22) # r))"
    by simp
  also have "\<dots> = Some (c # s, r)" unfolding parse_chars_escape Cons by simp
  finally show ?case .
qed

lemma quote_shape: "quote s @ r = Ch (CHR 0x22) # map Ch (concat (map escape_char s)) @ Ch (CHR 0x22) # r"
  by (simp add: quote_def)

subsection \<open>Reading a value\<close>

text \<open>
  \<open>JSON.parse\<close> reads the text that \<open>JSON.stringify\<close> wrote for any value, and returns the
  value with \<open>null\<close> for the numbers that are not finite. The proof follows the three
  functions of \<open>stringify\<close>; what is asked of the bound on the depth is the length of the
  text still to read, and of the rest of the text that it does not continue a number.
\<close>

lemma no_continue_sep [simp]:
  "no_continue (Ch (CHR '','') # r)" "no_continue (Ch (CHR '']'') # r)" "no_continue (Ch (CHR ''}'') # r)"
  "no_continue []"
  by (simp_all add: no_continue_def is_digit_def)

lemma skip_ws_Cons: "\<not> is_space s \<Longrightarrow> skip_ws (s # r) = s # r"
  by (simp add: skip_ws_def)

lemma int_text_first:
  "\<exists>c rest. map Ch (int_text i) = Ch c # rest \<and> (c = CHR ''-'' \<or> (48 \<le> (of_char c :: nat) \<and> (of_char c :: nat) \<le> 57))"
proof (cases "i < 0")
  case True
  then show ?thesis by (simp add: int_text_def)
next
  case False
  from nat_text_hd[of "nat i"] obtain d rest where
    t: "map Ch (nat_text (nat i)) = digit_sym d # rest" "d < 10" by (elim exE conjE)
  have "(of_char (digit_char d) :: nat) = 48 + d" using t(2) by (rule of_char_digit)
  then show ?thesis using False t
    by (intro exI[of _ "digit_char d"] exI[of _ rest]) (simp add: int_text_def digit_sym_def)
qed

lemma parse_value_number:
  assumes "no_continue r"
  shows "parse_value (Suc n) (number_text x @ r) = Some (read_back (JNum x), r)"
proof (cases x)
  case (Finite v)
  show ?thesis
  proof (cases "v = of_int \<lfloor>v\<rfloor>")
    case True
    from int_text_first[of "\<lfloor>v\<rfloor>"] obtain c rest where
      f: "map Ch (int_text \<lfloor>v\<rfloor>) = Ch c # rest"
         "c = CHR ''-'' \<or> (48 \<le> (of_char c :: nat) \<and> (of_char c :: nat) \<le> 57)"
      by (elim exE conjE)
    have ns: "\<not> is_space (Ch c)" using f(2) by (auto simp: is_space_def)
    have nc: "c \<noteq> CHR ''{''" "c \<noteq> CHR ''[''" "c \<noteq> CHR 0x22" "c \<noteq> CHR ''n''" "c \<noteq> CHR ''t''"
      "c \<noteq> CHR ''f''" using f(2) by auto
    have p: "parse_number (Ch c # rest @ r) = Some (v, r)"
      using parse_number_int_text[OF assms, of "\<lfloor>v\<rfloor>"] f(1) True by simp
    have "number_text x @ r = Ch c # rest @ r" using Finite True f(1) by (simp add: number_text_def)
    then show ?thesis using ns nc p Finite by (simp add: skip_ws_Cons)
  next
    case False
    then show ?thesis using Finite by (simp add: number_text_def skip_ws_def is_space_def)
  qed
qed (simp_all add: number_text_def skip_ws_def is_space_def literal_def)

lemma stringify_first:
  "\<exists>s rest. stringify v = s # rest \<and> \<not> is_space s \<and> s \<noteq> Ch (CHR '']'') \<and> s \<noteq> Ch (CHR ''}'')"
proof (cases v)
  case (JNum x)
  show ?thesis
  proof (cases x)
    case (Finite r)
    show ?thesis
    proof (cases "r = of_int \<lfloor>r\<rfloor>")
      case True
      from int_text_first[of "\<lfloor>r\<rfloor>"] obtain c rest where
        f: "map Ch (int_text \<lfloor>r\<rfloor>) = Ch c # rest"
           "c = CHR ''-'' \<or> (48 \<le> (of_char c :: nat) \<and> (of_char c :: nat) \<le> 57)"
        by (elim exE conjE)
      have "\<not> is_space (Ch c) \<and> Ch c \<noteq> Ch (CHR '']'') \<and> Ch c \<noteq> Ch (CHR ''}'')"
        using f(2) by (auto simp: is_space_def)
      then show ?thesis using JNum Finite True f(1) by (simp add: number_text_def)
    next
      case False
      then show ?thesis using JNum Finite by (simp add: number_text_def is_space_def)
    qed
  qed (use JNum in \<open>simp_all add: number_text_def is_space_def\<close>)
qed (simp_all add: is_space_def quote_def)

lemma stringify_nonempty: "0 < length (stringify v)"
  using stringify_first[of v] by auto

lemma elements_first:
  "vs \<noteq> [] \<Longrightarrow> \<exists>s rest. stringify_elements vs = s # rest \<and> \<not> is_space s \<and> s \<noteq> Ch (CHR '']'')"
proof (cases vs)
  case (Cons v us)
  from stringify_first[of v] obtain s rest where
    "stringify v = s # rest" "\<not> is_space s" "s \<noteq> Ch (CHR '']'')" by blast
  then show ?thesis using Cons by (cases us) auto
qed simp

lemma members_first:
  "kvs \<noteq> [] \<Longrightarrow> \<exists>rest. stringify_members kvs = Ch (CHR 0x22) # rest"
proof (cases kvs)
  case (Cons kv us)
  then show ?thesis by (cases kv; cases us) (auto simp: quote_def)
qed simp


lemma parse_stringify:
  "(\<forall>n r. length (stringify v) \<le> n \<longrightarrow> no_continue r \<longrightarrow>
       parse_value n (stringify v @ r) = Some (read_back v, r))"
  "(\<forall>n acc r. vs \<noteq> [] \<longrightarrow> length (stringify_elements vs) < n \<longrightarrow>
       parse_elements n acc (stringify_elements vs @ Ch (CHR '']'') # r)
         = Some (JArr (acc @ read_elements vs), r))"
  "(\<forall>n acc r. kvs \<noteq> [] \<longrightarrow> length (stringify_members kvs) < n \<longrightarrow>
       parse_members n acc (stringify_members kvs @ Ch (CHR ''}'') # r)
         = Some (JObj (foldl (\<lambda>a (k, v). obj_set k v a) acc (read_members kvs)), r))"
proof (induction v and vs and kvs rule: stringify_stringify_elements_stringify_members.induct)
  case 1
  show ?case
  proof (intro allI impI)
    fix n r assume "length (stringify JNull) \<le> n"
    then obtain m where "n = Suc m" by (cases n) auto
    then show "parse_value n (stringify JNull @ r) = Some (read_back JNull, r)"
      by (simp add: skip_ws_def is_space_def literal_def)
  qed
next
  case (2 b)
  show ?case
  proof (intro allI impI)
    fix n r assume "length (stringify (JBool b)) \<le> n"
    then obtain m where "n = Suc m" using stringify_nonempty[of "JBool b"] by (cases n) auto
    then show "parse_value n (stringify (JBool b) @ r) = Some (read_back (JBool b), r)"
      by (cases b) (simp_all add: skip_ws_def is_space_def literal_def)
  qed
next
  case (3 x)
  show ?case
  proof (intro allI impI)
    fix n r assume "length (stringify (JNum x)) \<le> n" and nc: "no_continue r"
    then obtain m where "n = Suc m" using stringify_nonempty[of "JNum x"] by (cases n) auto
    then show "parse_value n (stringify (JNum x) @ r) = Some (read_back (JNum x), r)"
      using parse_value_number[OF nc, of m x] by simp
  qed
next
  case (4 s)
  show ?case
  proof (intro allI impI)
    fix n r assume "length (stringify (JStr s)) \<le> n"
    then obtain m where "n = Suc m" using stringify_nonempty[of "JStr s"] by (cases n) auto
    then show "parse_value n (stringify (JStr s) @ r) = Some (read_back (JStr s), r)"
      by (simp add: quote_shape skip_ws_def is_space_def parse_chars_body)
  qed
next
  case (5 vs)
  show ?case
  proof (intro allI impI)
    fix n r assume len: "length (stringify (JArr vs)) \<le> n"
    then obtain m where n: "n = Suc m" by (cases n) auto
    show "parse_value n (stringify (JArr vs) @ r) = Some (read_back (JArr vs), r)"
    proof (cases "vs = []")
      case True
      then show ?thesis using n by (simp add: skip_ws_def is_space_def)
    next
      case False
      from elements_first[OF False] obtain s rest where
        f: "stringify_elements vs = s # rest" "\<not> is_space s" "s \<noteq> Ch (CHR '']'')" by blast
      have l: "length (stringify_elements vs) < m" using len n by simp
      have "parse_elements m [] (stringify_elements vs @ Ch (CHR '']'') # r)
          = Some (JArr ([] @ read_elements vs), r)"
        using 5 False l by blast
      then have "parse_elements m [] (s # rest @ Ch (CHR '']'') # r) = Some (JArr (read_elements vs), r)"
        using f(1) by simp
      then show ?thesis using n f by (simp add: skip_ws_def is_space_def)
    qed
  qed
next
  case (6 kvs)
  show ?case
  proof (intro allI impI)
    fix n r assume len: "length (stringify (JObj kvs)) \<le> n"
    then obtain m where n: "n = Suc m" by (cases n) auto
    show "parse_value n (stringify (JObj kvs) @ r) = Some (read_back (JObj kvs), r)"
    proof (cases "kvs = []")
      case True
      then show ?thesis using n by (simp add: skip_ws_def is_space_def)
    next
      case False
      from members_first[OF False] obtain rest where
        f: "stringify_members kvs = Ch (CHR 0x22) # rest" by blast
      have l: "length (stringify_members kvs) < m" using len n by simp
      have "parse_members m [] (stringify_members kvs @ Ch (CHR ''}'') # r)
          = Some (JObj (foldl (\<lambda>a (k, v). obj_set k v a) [] (read_members kvs)), r)"
        using 6 False l by blast
      then have "parse_members m [] (Ch (CHR 0x22) # rest @ Ch (CHR ''}'') # r)
          = Some (read_back (JObj kvs), r)"
        using f by simp
      then show ?thesis using n f by (simp add: skip_ws_def is_space_def)
    qed
  qed
next
  case 7
  show ?case by simp
next
  case (8 v)
  show ?case
  proof (intro allI impI)
    fix n acc r assume len: "length (stringify_elements [v]) < n"
    then obtain m where n: "n = Suc m" by (cases n) auto
    have "parse_value m (stringify v @ Ch (CHR '']'') # r) = Some (read_back v, Ch (CHR '']'') # r)"
      using 8 len n by simp
    then show "parse_elements n acc (stringify_elements [v] @ Ch (CHR '']'') # r)
        = Some (JArr (acc @ read_elements [v]), r)"
      using n by (simp add: skip_ws_def is_space_def)
  qed
next
  case (9 v u vs)
  show ?case
  proof (intro allI impI)
    fix n acc r assume len: "length (stringify_elements (v # u # vs)) < n"
    then obtain m where n: "n = Suc m" by (cases n) auto
    let ?rest = "stringify_elements (u # vs) @ Ch (CHR '']'') # r"
    have a: "parse_value m (stringify v @ Ch (CHR '','') # ?rest) = Some (read_back v, Ch (CHR '','') # ?rest)"
      using 9(1) len n by simp
    have b: "parse_elements m (acc @ [read_back v]) ?rest
        = Some (JArr ((acc @ [read_back v]) @ read_elements (u # vs)), r)"
      using 9(2) len n by simp
    show "parse_elements n acc (stringify_elements (v # u # vs) @ Ch (CHR '']'') # r)
        = Some (JArr (acc @ read_elements (v # u # vs)), r)"
      using n a b by (simp add: skip_ws_def is_space_def)
  qed
next
  case 10
  show ?case by simp
next
  case (11 k v)
  show ?case
  proof (intro allI impI)
    fix n acc r assume len: "length (stringify_members [(k, v)]) < n"
    then obtain m where n: "n = Suc m" by (cases n) auto
    have a: "parse_value m (stringify v @ Ch (CHR ''}'') # r) = Some (read_back v, Ch (CHR ''}'') # r)"
      using 11 len n by simp
    show "parse_members n acc (stringify_members [(k, v)] @ Ch (CHR ''}'') # r)
        = Some (JObj (foldl (\<lambda>a (k, v). obj_set k v a) acc (read_members [(k, v)])), r)"
      using n a by (simp add: quote_shape parse_chars_body skip_ws_def is_space_def)
  qed
next
  case (12 k v m kvs)
  show ?case
  proof (intro allI impI)
    fix n acc r assume len: "length (stringify_members ((k, v) # m # kvs)) < n"
    then obtain j where n: "n = Suc j" by (cases n) auto
    let ?rest = "stringify_members (m # kvs) @ Ch (CHR ''}'') # r"
    have a: "parse_value j (stringify v @ Ch (CHR '','') # ?rest) = Some (read_back v, Ch (CHR '','') # ?rest)"
      using 12(1) len n by simp
    have b: "parse_members j (obj_set k (read_back v) acc) ?rest
        = Some (JObj (foldl (\<lambda>a (k, v). obj_set k v a) (obj_set k (read_back v) acc)
                       (read_members (m # kvs))), r)"
      using 12(2) len n by simp
    show "parse_members n acc (stringify_members ((k, v) # m # kvs) @ Ch (CHR ''}'') # r)
        = Some (JObj (foldl (\<lambda>a (k, v). obj_set k v a) acc (read_members ((k, v) # m # kvs))), r)"
      using n a b by (simp add: quote_shape parse_chars_body skip_ws_def is_space_def)
  qed
qed

lemma parse_value_stringify:
  "length (stringify v) \<le> n \<Longrightarrow> no_continue r \<Longrightarrow>
     parse_value n (stringify v @ r) = Some (read_back v, r)"
  using parse_stringify(1) by blast

lemma JSON_parse_stringify: "JSON_parse (JSON_stringify v) = Some (read_back v)"
proof -
  have "parse_value (Suc (length (stringify v))) (stringify v @ []) = Some (read_back v, [])"
    by (rule parse_value_stringify) simp_all
  then show ?thesis
    by (simp add: JSON_parse_def JSON_stringify_def skip_ws_def del: parse_value.simps)
qed

lemma JSON_stringify_nonempty: "JSON_stringify v \<noteq> []"
  using stringify_nonempty[of v] by (simp add: JSON_stringify_def)

section \<open>The claims\<close>

text \<open>
  Claim C5, as amended. When every word of the document is non-empty, holds no white space
  and holds no sentence end directly followed by a quote and an upper-case letter, the
  sentence map built at initialisation consists of non-empty spans, each starting right
  after the previous one ends, whose index ranges together are exactly \<open>0, \<dots>, wordCount - 1\<close>.
\<close>

theorem sentence_map_partition:
  assumes "\<forall>w\<in>set wl. w \<noteq> [] \<and> (\<forall>c\<in>set w. \<not> is_ws c) \<and> \<not> quote_break w"
  shows "spans_partition (snd (initializeSentences wl)) (int (length wl))"
proof -
  let ?text = "join_sp wl"
  let ?ss = "detectSentences ?text"
  have nq: "\<not> quote_break ?text" using assms quote_break_join by blast
  have tot: "sum_list (map word_count ?ss) = int (length wl)"
    using detectSentences_words[OF nq] words_from_join[of wl] assms
    by (simp add: sum_word_count_concat split_words_from[abs_def])
  have pos: "\<forall>s\<in>set ?ss. 1 \<le> word_count s"
    using detectSentences_nonempty[of ?text] by (auto simp: word_count_def split_words_from Suc_le_eq)
  have m: "snd (initializeSentences wl) = map_sentences 0 0 ?ss"
    by (simp add: initializeSentences_def Let_def)
  show ?thesis unfolding spans_partition_def m
  proof (intro conjI allI impI)
    fix k assume "k < length (map_sentences 0 0 ?ss)"
    then have k: "k < length ?ss" by simp
    then have "1 \<le> word_count (?ss ! k)" using pos by simp
    then show "startWordIndex (map_sentences 0 0 ?ss ! k) \<le> endWordIndex (map_sentences 0 0 ?ss ! k)"
      by (simp add: nth_map_sentences[OF k])
  next
    fix k assume "Suc k < length (map_sentences 0 0 ?ss)"
    then have k: "Suc k < length ?ss" "k < length ?ss" by simp_all
    show "startWordIndex (map_sentences 0 0 ?ss ! Suc k) = endWordIndex (map_sentences 0 0 ?ss ! k) + 1"
      by (simp add: nth_map_sentences[OF k(1)] nth_map_sentences[OF k(2)] take_Suc_conv_app_nth[OF k(2)])
  next
    show "(\<Union>sp\<in>set (map_sentences 0 0 ?ss). {startWordIndex sp..endWordIndex sp}) = {0..int (length wl) - 1}"
      by (simp add: union_map_sentences tot)
  qed
qed

text \<open>The theorem at the five words of \<open>Dr. Smith arrived. He left.\<close>\<close>

theorem sentence_map_partition_witness:
  "snd (initializeSentences [''Dr.'', ''Smith'', ''arrived.'', ''He'', ''left.'']) =
     [\<lparr> sentenceIdx = 0, startWordIndex = 0, endWordIndex = 2, sentenceText = ''Dr. Smith arrived.'' \<rparr>,
      \<lparr> sentenceIdx = 1, startWordIndex = 3, endWordIndex = 4, sentenceText = ''He left.'' \<rparr>] \<and>
   spans_partition (snd (initializeSentences [''Dr.'', ''Smith'', ''arrived.'', ''He'', ''left.''])) 5"
proof -
  have "spans_partition (snd (initializeSentences [''Dr.'', ''Smith'', ''arrived.'', ''He'', ''left.'']))
          (int (length [''Dr.'', ''Smith'', ''arrived.'', ''He'', ''left.'']))"
    by (rule sentence_map_partition) (simp add: is_ws_def is_upper_def)
  moreover have "snd (initializeSentences [''Dr.'', ''Smith'', ''arrived.'', ''He'', ''left.'']) =
     [\<lparr> sentenceIdx = 0, startWordIndex = 0, endWordIndex = 2, sentenceText = ''Dr. Smith arrived.'' \<rparr>,
      \<lparr> sentenceIdx = 1, startWordIndex = 3, endWordIndex = 4, sentenceText = ''He left.'' \<rparr>]"
    by code_simp
  ultimately show ?thesis by simp
qed

text \<open>
  The claim as stated fails for a document of the single word \<open>Hi."Abc\<close>: the sentence
  detector ends a sentence inside the word, the map has two spans and index 1 belongs to
  the second one although the document has one word.
\<close>

theorem sentence_map_partition_counterexample:
  "snd (initializeSentences [''Hi.'' @ CHR 0x22 # ''Abc'']) =
     [\<lparr> sentenceIdx = 0, startWordIndex = 0, endWordIndex = 0, sentenceText = ''Hi.'' \<rparr>,
      \<lparr> sentenceIdx = 1, startWordIndex = 1, endWordIndex = 1, sentenceText = CHR 0x22 # ''Abc'' \<rparr>] \<and>
   \<not> spans_partition (snd (initializeSentences [''Hi.'' @ CHR 0x22 # ''Abc'']))
        (int (length [''Hi.'' @ CHR 0x22 # ''Abc'']))"
proof -
  have m: "snd (initializeSentences [''Hi.'' @ CHR 0x22 # ''Abc'']) =
     [\<lparr> sentenceIdx = 0, startWordIndex = 0, endWordIndex = 0, sentenceText = ''Hi.'' \<rparr>,
      \<lparr> sentenceIdx = 1, startWordIndex = 1, endWordIndex = 1, sentenceText = CHR 0x22 # ''Abc'' \<rparr>]"
    by code_simp
  have "(1::int) \<in> (\<Union>sp \<in> set (snd (initializeSentences [''Hi.'' @ CHR 0x22 # ''Abc''])).
            {startWordIndex sp .. endWordIndex sp})"
    unfolding m by simp
  moreover have "(1::int) \<notin> {0 .. int (length [''Hi.'' @ CHR 0x22 # ''Abc'']) - 1}" by simp
  ultimately have "\<not> spans_partition (snd (initializeSentences [''Hi.'' @ CHR 0x22 # ''Abc'']))
        (int (length [''Hi.'' @ CHR 0x22 # ''Abc'']))"
    unfolding spans_partition_def by blast
  with m show ?thesis by simp
qed

text \<open>
  Claim C6. The text \<open>Dr. Smith arrived. He left.\<close> is split into exactly the two sentences
  \<open>Dr. Smith arrived.\<close> and \<open>He left.\<close>: the full stop after the abbreviation \<open>Dr\<close> does not end
  a sentence, the one after \<open>arrived\<close>, followed by a space and an upper-case letter, does,
  and the last one, at the end of the text, closes the second sentence.
\<close>

theorem detectSentences_Dr_Smith:
  "detectSentences ''Dr. Smith arrived. He left.'' = [''Dr. Smith arrived.'', ''He left.''] \<and>
   \<not> ends_sentence ''Dr.'' '' Smith arrived. He left.'' \<and>
   ends_sentence ''Dr. Smith arrived.'' '' He left.'' \<and>
   ends_sentence '' He left.'' []"
  by code_simp




text \<open>
  Claim C2. For a word of length \<open>L\<close> the centre index is \<open>0\<close> if \<open>L \<le> 2\<close> and \<open>floor(L/2)\<close>
  otherwise, which is 1 for length 3 and 0 for length 2; the width computation, the
  centre-offset computation and the focus rendering all split the word at this index, and
  for a non-empty word the index points at one of its characters.
\<close>

theorem center_character_rule:
  "getWordWidth el c wrd True = focus_width_at el c wrd (center_index (length wrd)) \<and>
   getMiddleLetterOffset el c wrd = middle_offset_at el c wrd (center_index (length wrd)) \<and>
   createWordElement wrd True = focus_element_at wrd (center_index (length wrd)) \<and>
   (wrd \<noteq> [] \<longrightarrow> center_index (length wrd) < length wrd \<and>
      char_at wrd (center_index (length wrd)) = Text [wrd ! center_index (length wrd)]) \<and>
   center_index 3 = 1 \<and> center_index 2 = 0"
proof -
  have 1: "getWordWidth el c wrd True = focus_width_at el c wrd (center_index (length wrd))"
    by (simp add: getWordWidth_def focus_width_at_def center_index_def Let_def)
  have 2: "getMiddleLetterOffset el c wrd = middle_offset_at el c wrd (center_index (length wrd))"
    by (simp add: getMiddleLetterOffset_def middle_offset_at_def center_index_def Let_def)
  have 3: "createWordElement wrd True = focus_element_at wrd (center_index (length wrd))"
    by (simp add: createWordElement_def focus_element_at_def center_index_def Let_def)
  have 4: "center_index (length wrd) < length wrd \<and>
      char_at wrd (center_index (length wrd)) = Text [wrd ! center_index (length wrd)]"
    if "wrd \<noteq> []"
    using that by (cases wrd) (auto simp: center_index_def char_at_def)
  have 5: "center_index 3 = 1 \<and> center_index 2 = 0"
    by (simp add: center_index_def)
  from 1 2 3 4 5 show ?thesis by blast
qed

text \<open>The theorem at the word \<open>cat\<close>.\<close>

theorem center_character_rule_witness:
  "center_index (length ''cat'') = 1 \<and> char_at ''cat'' 1 = Text ''a'' \<and>
   createWordElement ''cat'' True =
     InnerHTML (''c<span class='' @ [CHR 0x22] @ ''middle-letter'' @ [CHR 0x22] @ ''>a</span>t'')"
  using center_character_rule[of ten_px Map.empty "''cat''"]
  by (simp add: center_index_def focus_element_at_def char_at_def)

text \<open>
  Claim C3, as amended. Constructing the metrics or the engine with an empty or non-array
  \<open>words\<close> argument raises an error instead of producing a state. With a non-empty array
  the metrics constructor throws when the page lacks the measuring element, and throws a
  \<open>TypeError\<close> when it is given no configuration; with a configuration, the measuring
  element and non-empty words the metrics are built. The engine is built, in its fresh
  state, whenever a configuration is given, the words are non-empty and the page has the
  measuring element, the display area and the main container.
\<close>

theorem empty_words_rejected:
  "new_WordMetrics pg NotArray c = Inl MetricsWordsInvalid \<and>
   new_WordMetrics pg (Array []) c = Inl MetricsWordsInvalid \<and>
   new_WordMarqueeEngine pg (Some cfg) NotArray = Inl EngineWordsInvalid \<and>
   new_WordMarqueeEngine pg (Some cfg) (Array []) = Inl EngineWordsInvalid \<and>
   new_WordMarqueeEngine pg None ws = Inl ConfigRequired \<and>
   (wl \<noteq> [] \<and> measureElement pg = None \<longrightarrow>
      new_WordMetrics pg (Array wl) c = Inl MeasureElementNotFound) \<and>
   (wl \<noteq> [] \<and> measureElement pg \<noteq> None \<longrightarrow>
      new_WordMetrics pg (Array wl) None = Inl TypeError) \<and>
   (wl \<noteq> [] \<and> (\<forall>w\<in>set wl. w \<noteq> []) \<and> measureElement pg \<noteq> None \<longrightarrow>
      (\<exists>m. new_WordMetrics pg (Array wl) (Some cfg) = Inr m \<and> metricsWords m = wl)) \<and>
   (wl \<noteq> [] \<and> (\<forall>w\<in>set wl. w \<noteq> []) \<and> measureElement pg \<noteq> None \<and> displayArea pg \<and>
    container pg \<noteq> None \<longrightarrow>
      (\<exists>e. new_WordMarqueeEngine pg (Some cfg) (Array wl) = Inr e \<and> words e = wl \<and>
           metricsWords (metrics e) = wl \<and> intervalId e = None \<and>
           state e = \<lparr> mode = ''word'', isPlaying = False, focusIndex = 0, sentenceIndex = 0,
                       lastTimestamp = None \<rparr>))"
proof -
  have metrics_ok: "\<exists>m. new_WordMetrics pg (Array wl) (Some cfg) = Inr m \<and> metricsWords m = wl"
    if "wl \<noteq> []" "\<forall>w\<in>set wl. w \<noteq> []" "measureElement pg \<noteq> None"
  proof -
    from that(3) obtain el where el: "measureElement pg = Some el" by auto
    from positions_loop_ok[OF that(2), of el cfg Map.empty 0 0]
    obtain ps c' where "positions_loop el (Some cfg) Map.empty 0 0 wl = Inr (ps, c')" by blast
    then show ?thesis using that(1) el by (simp add: new_WordMetrics_def calculateWordPositions_def)
  qed
  have engine_ok: "\<exists>e. new_WordMarqueeEngine pg (Some cfg) (Array wl) = Inr e \<and> words e = wl \<and>
           metricsWords (metrics e) = wl \<and> intervalId e = None \<and>
           state e = \<lparr> mode = ''word'', isPlaying = False, focusIndex = 0, sentenceIndex = 0,
                       lastTimestamp = None \<rparr>"
    if "wl \<noteq> []" "\<forall>w\<in>set wl. w \<noteq> []" "measureElement pg \<noteq> None" "displayArea pg" "container pg \<noteq> None"
  proof -
    from metrics_ok[OF that(1,2,3)] obtain m where
      m: "new_WordMetrics pg (Array wl) (Some cfg) = Inr m" "metricsWords m = wl" by blast
    from that(4,5) obtain r where r: "new_RenderEngine pg [] = Inr r"
      by (auto simp: new_RenderEngine_def Let_def)
    show ?thesis using that(1) m r
      by (simp add: new_WordMarqueeEngine_def split: prod.splits)
  qed
  have no_config: "new_WordMetrics pg (Array wl) None = Inl TypeError"
    if "wl \<noteq> []" "measureElement pg \<noteq> None"
    using that by (rule new_WordMetrics_None)
  have no_element: "new_WordMetrics pg (Array wl) c = Inl MeasureElementNotFound"
    if "wl \<noteq> []" "measureElement pg = None"
    using that by (simp add: new_WordMetrics_def)
  have guards: "new_WordMetrics pg NotArray c = Inl MetricsWordsInvalid"
    "new_WordMetrics pg (Array []) c = Inl MetricsWordsInvalid"
    "new_WordMarqueeEngine pg (Some cfg) NotArray = Inl EngineWordsInvalid"
    "new_WordMarqueeEngine pg (Some cfg) (Array []) = Inl EngineWordsInvalid"
    "new_WordMarqueeEngine pg None ws = Inl ConfigRequired"
    by (simp_all add: new_WordMetrics_def new_WordMarqueeEngine_def)
  show ?thesis using metrics_ok engine_ok no_config no_element guards by blast
qed

text \<open>The theorem at the words \<open>cat\<close> and \<open>it\<close> on a page that has all three elements.\<close>

theorem empty_words_rejected_witness:
  "new_WordMetrics (full_page ten_px) (Array [''cat'', ''it'']) None = Inl TypeError \<and>
   (\<exists>m. new_WordMetrics (full_page ten_px) (Array [''cat'', ''it'']) (Some CONFIG) = Inr m \<and>
        metricsWords m = [''cat'', ''it'']) \<and>
   (\<exists>e. new_WordMarqueeEngine (full_page ten_px) (Some CONFIG) (Array [''cat'', ''it'']) = Inr e \<and>
        words e = [''cat'', ''it''] \<and> metricsWords (metrics e) = [''cat'', ''it''] \<and>
        intervalId e = None \<and>
        state e = \<lparr> mode = ''word'', isPlaying = False, focusIndex = 0, sentenceIndex = 0,
                    lastTimestamp = None \<rparr>)"
  using empty_words_rejected[where pg = "full_page ten_px" and c = None and cfg = CONFIG
      and ws = NotArray and wl = "[''cat'', ''it'']"]
  by (simp add: full_page_def)

text \<open>
  The claim as stated fails for a non-empty array when no configuration is passed, to the
  engine or to the metrics, and when the page lacks the measuring element: the
  constructors throw.
\<close>

theorem empty_words_rejected_counterexample:
  "new_WordMarqueeEngine (full_page ten_px) None (Array [''cat'']) = Inl ConfigRequired \<and>
   new_WordMetrics (full_page ten_px) (Array [''cat'']) None = Inl TypeError \<and>
   new_WordMetrics \<lparr> measureElement = None, displayArea = True, container = Some 840 \<rparr>
     (Array [''cat'']) (Some CONFIG) = Inl MeasureElementNotFound \<and>
   new_WordMarqueeEngine \<lparr> measureElement = None, displayArea = True, container = Some 840 \<rparr>
     (Some CONFIG) (Array [''cat'']) = Inl (InitializationFailed MeasureElementNotFound)"
  by (simp add: new_WordMarqueeEngine_def new_WordMetrics_def full_page_def
      calculateWordPositions_def getWordWidth_def getMiddleLetterOffset_def measureText_def
      cacheKey_def char_at_def ten_px_def Let_def upt_rec)

text \<open>
  Claim C4. \<open>0 \<le> focusIndex < wordCount\<close> is to hold in every state reachable from a freshly
  loaded document. The code loses it in sentence mode, where every move sets \<open>focusIndex\<close> to
  the \<open>startWordIndex\<close> of the target span without comparing it with the word count: for
  the document of the single word \<open>Hi."Abc\<close> the sentence map has a second span starting at
  index 1, and after a toggle to sentence mode and one wheel step to the next sentence
  \<open>focusIndex\<close> is 1 although the document has one word.
\<close>

theorem focus_index_escapes:
  "new_WordMarqueeEngine (full_page ten_px) (Some CONFIG) (Array hi_abc_words) =
     Inr (example_engine hi_abc_words) \<and>
   focusIndex (state (engine (run (initial_world (example_engine hi_abc_words))
     [ToggleMode, Wheel (- 1)]))) = 1 \<and>
   getWordCount (metrics (engine (run (initial_world (example_engine hi_abc_words))
     [ToggleMode, Wheel (- 1)]))) = 1"
proof -
  note f = hi_abc_engine
  have "focusIndex (state (engine (run (initial_world (example_engine hi_abc_words)) [ToggleMode, Wheel (- 1)]))) = 1"
    by (simp add: method_defs f)
  moreover have "getWordCount (metrics (engine (run (initial_world (example_engine hi_abc_words)) [ToggleMode, Wheel (- 1)]))) = 1"
    using static_run[of "initial_world (example_engine hi_abc_words)" "[ToggleMode, Wheel (- 1)]"] f(5)
    by (simp add: static_def initial_world_def getWordCount_def)
  ultimately show ?thesis using f(1) by simp
qed

text \<open>
  The paths of word mode clamp, and so does sentence mode as long as the spans of the map
  start at indices of the document: for an engine constructed with a positive page size on
  such a document the focus stays in range after every sequence of method calls, handler
  calls and timer firings, and an advance in word mode at the last index stops playback
  and leaves the focus where it is.
\<close>

theorem focus_index_invariant:
  assumes "new_WordMarqueeEngine pg (Some cfg) (Array wl) = Inr e" and "engine w0 = e"
    and "0 < wordsPerPage cfg"
    and "\<forall>sp\<in>set (sentenceWordMap e). startWordIndex sp < int (length wl)"
  shows "0 \<le> focusIndex (state (engine (run w0 evs))) \<and>
         focusIndex (state (engine (run w0 evs))) < getWordCount (metrics (engine (run w0 evs))) \<and>
         getWordCount (metrics (engine (run w0 evs))) = int (length wl) \<and>
         (getWordCount (metrics (engine w)) - 1 \<le> focusIndex (state (engine w)) \<longrightarrow>
            \<not> isPlaying (state (engine (advanceWord w))) \<and>
            focusIndex (state (engine (advanceWord w))) = focusIndex (state (engine w)))"
proof -
  note f = new_engine_fields[OF assms(1)]
  have n: "getWordCount (metrics (engine w0)) = int (length wl)"
    using f assms(2) by (simp add: getWordCount_def)
  have "wl \<noteq> []" using f by simp
  then have 1: "focus_in_range w0" using f assms(2) n by (simp add: focus_in_range_def fresh_state_def)
  have 2: "map_in_range w0"
    using f assms(2,3,4) n initializeSentences_start[of _ wl] by (auto simp: map_in_range_def)
  have "static (run w0 evs) = static w0" by simp
  then have m: "metrics (engine (run w0 evs)) = metrics (engine w0)" by (simp add: static_def)
  have "focus_in_range (run w0 evs)" using focus_run[OF 1 2] .
  then have a: "0 \<le> focusIndex (state (engine (run w0 evs)))"
      "focusIndex (state (engine (run w0 evs))) < getWordCount (metrics (engine (run w0 evs)))"
    by (simp_all add: focus_in_range_def)
  have l: "getWordCount (metrics (engine w)) - 1 \<le> focusIndex (state (engine w)) \<longrightarrow>
            \<not> isPlaying (state (engine (advanceWord w))) \<and>
            focusIndex (state (engine (advanceWord w))) = focusIndex (state (engine w))"
    by (simp add: advanceWord_def stop_engine)
  show ?thesis using a m n l by simp
qed


text \<open>This at the document \<open>Hi. Go on.\<close> after a toggle, a wheel step, a toggle back
  and a page seek.\<close>

theorem focus_index_invariant_witness:
  "0 \<le> focusIndex (state (engine (run (initial_world (example_engine hi_go_on_words))
          [ToggleMode, Wheel (- 1), ToggleMode, NextPage]))) \<and>
   focusIndex (state (engine (run (initial_world (example_engine hi_go_on_words))
          [ToggleMode, Wheel (- 1), ToggleMode, NextPage]))) < 3"
proof -
  note f = hi_go_on_engine
  have c: "\<forall>sp\<in>set (sentenceWordMap (example_engine hi_go_on_words)).
      startWordIndex sp < int (length hi_go_on_words)"
    unfolding f(6) by simp
  have a: "engine (initial_world (example_engine hi_go_on_words)) = example_engine hi_go_on_words"
    by (simp add: initial_world_def)
  have b: "0 < wordsPerPage CONFIG" by (simp add: CONFIG_def)
  from focus_index_invariant[OF f(1) a b c, where evs = "[ToggleMode, Wheel (- 1), ToggleMode, NextPage]"
      and w = "initial_world (example_engine hi_go_on_words)"]
  show ?thesis by simp
qed




text \<open>
  Claim C8, as amended. With no book selected \<open>saveState\<close> writes nothing, and neither does
  it when session storage refuses the write. With a book selected and the write accepted,
  \<open>loadState\<close> after \<open>saveState\<close> returns an object whose entry \<open>readfast\<close> holds the \<open>mode\<close>,
  the \<open>focusIndex\<close> and the \<open>sentenceIndex\<close> of the playback state with exactly their
  values, and \<open>wpm\<close> with exactly its value when that is an integer and as \<open>null\<close> when it
  is \<open>NaN\<close> or infinite; the entry has no \<open>isPlaying\<close> and no \<open>scrollOffset\<close>. The
  identity of the book and the view are read back as well.
\<close>

theorem snapshot_round_trip:
  "(currentBook w = None \<longrightarrow> saveState w = w) \<and>
   (\<not> storageWritable w \<longrightarrow> saveState w = w) \<and>
   (currentBook w = Some b \<and> storageWritable w \<longrightarrow>
      (\<exists>r. json_get ''readfast'' (loadState (saveState w)) = Some r \<and>
           json_get ''mode'' r = Some (JStr (mode (state (engine w)))) \<and>
           json_get ''focusIndex'' r = Some (JNum (Finite (real_of_int (focusIndex (state (engine w)))))) \<and>
           json_get ''sentenceIndex'' r =
             Some (JNum (Finite (real_of_int (sentenceIndex (state (engine w)))))) \<and>
           (\<forall>n. wpm (config (engine w)) = Finite (real_of_int n) \<longrightarrow>
                json_get ''wpm'' r = Some (JNum (Finite (real_of_int n)))) \<and>
           (wpm (config (engine w)) \<in> {NaN, PosInfinity, NegInfinity} \<longrightarrow>
                json_get ''wpm'' r = Some JNull) \<and>
           json_get ''isPlaying'' r = None \<and> json_get ''scrollOffset'' r = None) \<and>
      json_get ''book'' (loadState (saveState w)) =
        Some (JObj [(''filename'', JStr (filename b)), (''title'', JStr (title b)),
                    (''type'', JStr (bookType b))]) \<and>
      json_get ''view'' (loadState (saveState w)) = Some (JStr (currentView w)))"
proof -
  have written: "loadState (saveState w) = read_back (snapshot w)"
    if "currentBook w = Some b" "storageWritable w"
    using that by (simp add: loadState_def saveState_def JSON_parse_stringify JSON_stringify_nonempty)
  let ?r = "JObj [(''mode'', JStr (mode (state (engine w)))),
                  (''focusIndex'', JNum (Finite (real_of_int (focusIndex (state (engine w)))))),
                  (''sentenceIndex'', JNum (Finite (real_of_int (sentenceIndex (state (engine w)))))),
                  (''wpm'', read_back (JNum (wpm (config (engine w)))))]"
  have fields: "json_get ''readfast'' (read_back (snapshot w)) = Some ?r"
    "json_get ''book'' (read_back (snapshot w)) =
       Some (JObj [(''filename'', JStr (filename b)), (''title'', JStr (title b)),
                   (''type'', JStr (bookType b))])"
    "json_get ''view'' (read_back (snapshot w)) = Some (JStr (currentView w))"
    if "currentBook w = Some b"
    using that by (simp_all add: snapshot_def obj_set_def)
  have entry: "json_get ''mode'' ?r = Some (JStr (mode (state (engine w))))"
    "json_get ''focusIndex'' ?r = Some (JNum (Finite (real_of_int (focusIndex (state (engine w))))))"
    "json_get ''sentenceIndex'' ?r = Some (JNum (Finite (real_of_int (sentenceIndex (state (engine w))))))"
    "\<forall>n. wpm (config (engine w)) = Finite (real_of_int n) \<longrightarrow>
        json_get ''wpm'' ?r = Some (JNum (Finite (real_of_int n)))"
    "wpm (config (engine w)) \<in> {NaN, PosInfinity, NegInfinity} \<longrightarrow> json_get ''wpm'' ?r = Some JNull"
    "json_get ''isPlaying'' ?r = None" "json_get ''scrollOffset'' ?r = None"
    by auto
  have unsaved: "currentBook w = None \<longrightarrow> saveState w = w" "\<not> storageWritable w \<longrightarrow> saveState w = w"
    by (simp_all add: saveState_def)
  have readfast: "\<exists>r. json_get ''readfast'' (loadState (saveState w)) = Some r \<and>
           json_get ''mode'' r = Some (JStr (mode (state (engine w)))) \<and>
           json_get ''focusIndex'' r = Some (JNum (Finite (real_of_int (focusIndex (state (engine w)))))) \<and>
           json_get ''sentenceIndex'' r =
             Some (JNum (Finite (real_of_int (sentenceIndex (state (engine w)))))) \<and>
           (\<forall>n. wpm (config (engine w)) = Finite (real_of_int n) \<longrightarrow>
                json_get ''wpm'' r = Some (JNum (Finite (real_of_int n)))) \<and>
           (wpm (config (engine w)) \<in> {NaN, PosInfinity, NegInfinity} \<longrightarrow>
                json_get ''wpm'' r = Some JNull) \<and>
           json_get ''isPlaying'' r = None \<and> json_get ''scrollOffset'' r = None"
    if "currentBook w = Some b" "storageWritable w"
  proof -
    have "json_get ''readfast'' (loadState (saveState w)) = Some ?r"
      unfolding written[OF that] by (rule fields(1)[OF that(1)])
    then show ?thesis using entry by blast
  qed
  have others: "json_get ''book'' (loadState (saveState w)) =
        Some (JObj [(''filename'', JStr (filename b)), (''title'', JStr (title b)),
                    (''type'', JStr (bookType b))])"
      "json_get ''view'' (loadState (saveState w)) = Some (JStr (currentView w))"
    if "currentBook w = Some b" "storageWritable w"
    unfolding written[OF that] by (rule fields(2,3)[OF that(1)])+
  show ?thesis using unsaved readfast others by blast
qed

text \<open>
  The theorem at the example document after one wheel step, with a book selected: the text
  in session storage, and the entries that are read back from it.
\<close>

theorem snapshot_round_trip_witness:
  \<open>sessionStorage (saveState (run ((initial_world (example_engine dr_smith_words))\<lparr> currentBook := Some a_book \<rparr>)
      [Wheel (- 1)])) =
     Some (map Ch
      (''{"book":{"filename":"a.pdf","title":"A","type":"pdf"},"view":"real",'' @
       ''"readfast":{"mode":"word","focusIndex":1,"sentenceIndex":0,"wpm":250},'' @
       ''"pdf":null,"ui":{"booksPanelOpen":false,"controlsPanelOpen":false,'' @
       ''"textColor":"#ffffff","bgColor":"#000000"}}'')) \<and>
   map_option (json_get ''mode'')
     (json_get ''readfast'' (loadState (saveState
        (run ((initial_world (example_engine dr_smith_words))\<lparr> currentBook := Some a_book \<rparr>) [Wheel (- 1)]))))
     = Some (Some (JStr ''word'')) \<and>
   map_option (json_get ''focusIndex'')
     (json_get ''readfast'' (loadState (saveState
        (run ((initial_world (example_engine dr_smith_words))\<lparr> currentBook := Some a_book \<rparr>) [Wheel (- 1)]))))
     = Some (Some (JNum (Finite 1))) \<and>
   map_option (json_get ''sentenceIndex'')
     (json_get ''readfast'' (loadState (saveState
        (run ((initial_world (example_engine dr_smith_words))\<lparr> currentBook := Some a_book \<rparr>) [Wheel (- 1)]))))
     = Some (Some (JNum (Finite 0))) \<and>
   map_option (json_get ''wpm'')
     (json_get ''readfast'' (loadState (saveState
        (run ((initial_world (example_engine dr_smith_words))\<lparr> currentBook := Some a_book \<rparr>) [Wheel (- 1)]))))
     = Some (Some (JNum (Finite 250)))\<close>
proof -
  note f = dr_smith_engine
  let ?w = "run ((initial_world (example_engine dr_smith_words))\<lparr> currentBook := Some a_book \<rparr>) [Wheel (- 1)]"
  have a: "state (engine ?w) = fresh_state\<lparr> focusIndex := 1 \<rparr>" "config (engine ?w) = CONFIG"
    "currentBook ?w = Some a_book" "storageWritable ?w"
    by (simp_all add: method_defs f saveStateDebounced_def setTimer_def upd_state_def)
  have s: "snapshot ?w =
      JObj [(''book'', JObj [(''filename'', JStr ''a.pdf''), (''title'', JStr ''A''), (''type'', JStr ''pdf'')]),
            (''view'', JStr ''real''),
            (''readfast'', JObj [(''mode'', JStr ''word''), (''focusIndex'', JNum (Finite 1)),
                                 (''sentenceIndex'', JNum (Finite 0)), (''wpm'', JNum (Finite 250))]),
            (''pdf'', JNull),
            (''ui'', JObj [(''booksPanelOpen'', JBool False), (''controlsPanelOpen'', JBool False),
                          (''textColor'', JStr ''#ffffff''), (''bgColor'', JStr ''#000000'')])]"
    unfolding snapshot_def a
    by (simp add: method_defs f saveStateDebounced_def setTimer_def upd_state_def fresh_state_def
        a_book_def)
  have t: "sessionStorage (saveState ?w) = Some (JSON_stringify (snapshot ?w))"
    using a(3,4) by (simp add: saveState_def)
  have txt1: \<open>JSON_stringify (JObj [(''book'', JObj [(''filename'', JStr ''a.pdf''), (''title'', JStr ''A''), (''type'', JStr ''pdf'')]),
            (''view'', JStr ''real''),
            (''readfast'', JObj [(''mode'', JStr ''word''), (''focusIndex'', JNum (Finite 1)),
                                 (''sentenceIndex'', JNum (Finite 0)), (''wpm'', JNum (Finite 250))]),
            (''pdf'', JNull),
            (''ui'', JObj [(''booksPanelOpen'', JBool False), (''controlsPanelOpen'', JBool False),
                          (''textColor'', JStr ''#ffffff''), (''bgColor'', JStr ''#000000'')])]) =
     map Ch
      (''{"book":{"filename":"a.pdf","title":"A","type":"pdf"},"view":"real",'' @
       ''"readfast":{"mode":"word","focusIndex":1,"sentenceIndex":0,"wpm":250},'' @
       ''"pdf":null,"ui":{"booksPanelOpen":false,"controlsPanelOpen":false,'' @
       ''"textColor":"#ffffff","bgColor":"#000000"}}'')\<close>
    by code_simp
  have w250: "wpm (config (engine ?w)) = Finite (real_of_int 250)" using a(2) by (simp add: CONFIG_def)
  from snapshot_round_trip[of ?w a_book] a(3,4) obtain r where
    r: "json_get ''readfast'' (loadState (saveState ?w)) = Some r"
       "json_get ''mode'' r = Some (JStr (mode (state (engine ?w))))"
       "json_get ''focusIndex'' r = Some (JNum (Finite (real_of_int (focusIndex (state (engine ?w))))))"
       "json_get ''sentenceIndex'' r = Some (JNum (Finite (real_of_int (sentenceIndex (state (engine ?w))))))"
       "\<forall>n. wpm (config (engine ?w)) = Finite (real_of_int n) \<longrightarrow>
            json_get ''wpm'' r = Some (JNum (Finite (real_of_int n)))"
    by blast
  from r(5) w250 have r5: "json_get ''wpm'' r = Some (JNum (Finite (real_of_int 250)))" by blast
  show ?thesis unfolding t s txt1 using r(1,2,3,4) r5 a(1) unfolding s
    by (simp add: fresh_state_def)
qed

text \<open>
  The claim as stated fails for \<open>isPlaying\<close>, which \<open>saveState\<close> does not write: the playing
  and the paused state of the same document are read back alike. It fails for a \<open>wpm\<close> that
  is \<open>NaN\<close>, as \<open>parseInt\<close> of the slider value can be, which is read back as \<open>null\<close>. And
  with no book selected nothing is stored at all.
\<close>

theorem snapshot_round_trip_counterexample:
  "isPlaying (state (engine (run ((initial_world (example_engine dr_smith_words))\<lparr> currentBook := Some a_book \<rparr>) [Start]))) \<and>
   \<not> isPlaying (state (engine ((initial_world (example_engine dr_smith_words))\<lparr> currentBook := Some a_book \<rparr>))) \<and>
   loadState (saveState (run ((initial_world (example_engine dr_smith_words))\<lparr> currentBook := Some a_book \<rparr>) [Start])) =
   loadState (saveState ((initial_world (example_engine dr_smith_words))\<lparr> currentBook := Some a_book \<rparr>)) \<and>
   wpm (config (engine (run ((initial_world (example_engine dr_smith_words))\<lparr> currentBook := Some a_book \<rparr>)
      [SetSpeed NaN]))) = NaN \<and>
   map_option (json_get ''wpm'')
     (json_get ''readfast'' (loadState (saveState
        (run ((initial_world (example_engine dr_smith_words))\<lparr> currentBook := Some a_book \<rparr>) [SetSpeed NaN]))))
     = Some (Some JNull) \<and>
   loadState (saveState (run (initial_world (example_engine dr_smith_words)) [Start])) = JNull"
proof -
  note f = dr_smith_engine
  let ?b = "(initial_world (example_engine dr_smith_words))\<lparr> currentBook := Some a_book \<rparr>"
  have p: "isPlaying (state (engine (run ?b [Start])))" "\<not> isPlaying (state (engine ?b))"
    by (simp_all add: method_defs f setTimer_def set_intervalId_def upd_state_def)
  have same: "snapshot (run ?b [Start]) = snapshot ?b"
    by (simp add: method_defs f snapshot_def setTimer_def set_intervalId_def upd_state_def)
  have bk: "currentBook (run ?b [Start]) = Some a_book" "storageWritable (run ?b [Start])"
    "currentBook ?b = Some a_book" "storageWritable ?b"
    "currentBook (run ?b [SetSpeed NaN]) = Some a_book" "storageWritable (run ?b [SetSpeed NaN])"
    by (simp_all add: method_defs f saveState_def setTimer_def set_intervalId_def upd_state_def)
  have l: "loadState (saveState (run ?b [Start])) = loadState (saveState ?b)"
    using bk same by (simp add: loadState_def saveState_def JSON_parse_stringify JSON_stringify_nonempty)
  have n: "wpm (config (engine (run ?b [SetSpeed NaN]))) = NaN"
    by (simp add: method_defs f)
  have "loadState (saveState (run ?b [SetSpeed NaN])) = read_back (snapshot (run ?b [SetSpeed NaN]))"
    using bk by (simp add: loadState_def saveState_def JSON_parse_stringify JSON_stringify_nonempty)
  then have m: "map_option (json_get ''wpm'')
      (json_get ''readfast'' (loadState (saveState (run ?b [SetSpeed NaN])))) = Some (Some JNull)"
    using n bk(5) by (simp add: snapshot_def obj_set_def)
  have e: "loadState (saveState (run (initial_world (example_engine dr_smith_words)) [Start])) = JNull"
    by (simp add: method_defs f loadState_def saveState_def setTimer_def set_intervalId_def upd_state_def)
  show ?thesis using p l n m e by simp
qed

text \<open>
  Claim C9. In every state a freshly constructed engine reaches by calls of its methods and
  handlers and by timer firings, at most one timer that advances the reading position is
  active, also after a further \<open>start\<close> or \<open>setSpeed\<close>. There \<open>start\<close> changes nothing when
  \<open>isPlaying\<close> is already true, and \<open>setSpeed\<close> while playing in word mode leaves exactly one
  advance timer, the new interval of period \<open>60000 / wpm\<close> that \<open>intervalId\<close> then names, and
  no active timer under the old handle.
\<close>

theorem single_advance_schedule:
  assumes "new_WordMarqueeEngine pg (Some cfg) (Array wl) = Inr e" and "w = run (initial_world e) evs"
  shows "length (advance_timers w) \<le> 1 \<and>
         (isPlaying (state (engine w)) \<longrightarrow> start w = w) \<and>
         (isPlaying (state (engine w)) \<and> mode (state (engine w)) = ''word'' \<longrightarrow>
            advance_timers (setSpeed v w) =
              [\<lparr> timerId = nextTimerId w, timerKind = Interval, timerDelay = js_div (Finite 60000) v,
                 timerCallback = AdvanceWord \<rparr>] \<and>
            intervalId (engine (setSpeed v w)) = Some (nextTimerId w) \<and>
            (\<forall>t\<in>set (timers (setSpeed v w)). Some (timerId t) \<noteq> intervalId (engine w))) \<and>
         length (advance_timers (start w)) \<le> 1 \<and> length (advance_timers (setSpeed v w)) \<le> 1"
proof -
  have "intervalId e = None" using new_engine_fields[OF assms(1)] by simp
  then have i: "timers_inv w" using assms(2) inv_run[OF inv_initial] by simp
  have 1: "length (advance_timers w) \<le> 1" using inv_at_most_one[OF i] .
  have 2: "isPlaying (state (engine w)) \<longrightarrow> start w = w" by (simp add: start_def)
  have 4: "length (advance_timers (start w)) \<le> 1" using inv_at_most_one[OF inv_start[OF i]] .
  have 5: "length (advance_timers (setSpeed v w)) \<le> 1" using inv_at_most_one[OF inv_setSpeed[OF i]] .
  have 3: "advance_timers (setSpeed v w) =
              [\<lparr> timerId = nextTimerId w, timerKind = Interval, timerDelay = js_div (Finite 60000) v,
                 timerCallback = AdvanceWord \<rparr>] \<and>
            intervalId (engine (setSpeed v w)) = Some (nextTimerId w) \<and>
            (\<forall>t\<in>set (timers (setSpeed v w)). Some (timerId t) \<noteq> intervalId (engine w))"
    if p: "isPlaying (state (engine w))" "mode (state (engine w)) = ''word''"
  proof -
    let ?w1 = "w\<lparr> engine := (engine w)\<lparr> config := (config (engine w))\<lparr> wpm := v \<rparr> \<rparr> \<rparr>"
    have i1: "timers_inv ?w1" using i by (simp add: inv_config)
    let ?w3 = "clearTimer (intervalId (engine ?w1)) ?w1"
    have i3: "timers_inv ?w3" using inv_clearTimer[OF i1] .
    have a3: "advance_timers ?w3 = []" using adv_clear_interval[OF i1] .
    have p3: "isPlaying (state (engine ?w3))" using p by simp
    have eq: "setSpeed v w = saveState (set_intervalId (Some (fst (setTimer Interval AdvanceWord (js_div (Finite 60000) v) ?w3)))
                 (snd (setTimer Interval AdvanceWord (js_div (Finite 60000) v) ?w3)))"
      using p by (simp add: setSpeed_def Let_def case_prod_beta)
    have A: "advance_timers (setSpeed v w) =
              [\<lparr> timerId = nextTimerId w, timerKind = Interval, timerDelay = js_div (Finite 60000) v,
                 timerCallback = AdvanceWord \<rparr>]"
      unfolding eq using inv_install(2)[OF i3 a3 p3, of AdvanceWord Interval "js_div (Finite 60000) v"] by simp
    have B: "intervalId (engine (setSpeed v w)) = Some (nextTimerId w)" unfolding eq by simp
    have D: "Some (nextTimerId w) \<noteq> intervalId (engine w)"
    proof
      assume "Some (nextTimerId w) = intervalId (engine w)"
      then have "intervalId (engine w) = Some (nextTimerId w)" by simp
      then have "nextTimerId w < nextTimerId w" using i unfolding timers_inv_def by blast
      then show False by simp
    qed
    have C: "\<forall>t\<in>set (timers (setSpeed v w)). Some (timerId t) \<noteq> intervalId (engine w)"
      unfolding eq using D by simp
    show ?thesis using A B C by simp
  qed
  show ?thesis using 1 2 3 4 5 by blast
qed

text \<open>The theorem at the example document after \<open>start\<close>.\<close>

theorem single_advance_schedule_witness:
  "length (advance_timers (run (initial_world (example_engine dr_smith_words)) [Start])) \<le> 1 \<and>
   start (run (initial_world (example_engine dr_smith_words)) [Start]) =
     run (initial_world (example_engine dr_smith_words)) [Start] \<and>
   advance_timers (setSpeed (Finite 400) (run (initial_world (example_engine dr_smith_words)) [Start])) =
     [\<lparr> timerId = 2, timerKind = Interval, timerDelay = Finite 150, timerCallback = AdvanceWord \<rparr>]"
proof -
  note f = dr_smith_engine
  let ?w = "run (initial_world (example_engine dr_smith_words)) [Start]"
  have a: "state (engine ?w) = fresh_state\<lparr> isPlaying := True \<rparr>" "nextTimerId ?w = 2"
    by (simp_all add: method_defs f)
  from single_advance_schedule[OF f(1) refl, of "[Start]" "Finite 400"] show ?thesis
    using a by (simp add: fresh_state_def js_div_def)
qed

text \<open>
  Claim C10. In sentence mode with a positive speed, \<open>start\<close> on a paused engine advances at
  once: when the current sentence (at an index from \<open>-1\<close> on, as every reachable one is) is
  not the last, \<open>sentenceIndex\<close> is incremented, \<open>focusIndex\<close> becomes the
  \<open>startWordIndex\<close> of the new sentence, playback is on and the one timer installed after
  the save timer is a timeout for \<open>_advanceSentence\<close> with the delay
  \<open>(word count of the new sentence / wpm) * 60000\<close>; when it is the last, playback is off
  again, the position is unchanged and no timer is installed. A later advance fired by the
  timeout moves on and schedules the next one in the same way.
\<close>

theorem sentence_start_advances:
  assumes "mode (state (engine w)) = ''sentence''" and "wpm (config (engine w)) = Finite v" and "0 < v"
  shows
   "(\<not> isPlaying (state (engine w)) \<and> - 1 \<le> sentenceIndex (state (engine w)) \<and>
     sentenceIndex (state (engine w)) < int (length (sentenceWordMap (engine w))) - 1 \<longrightarrow>
       sentenceIndex (state (engine (start w))) = sentenceIndex (state (engine w)) + 1 \<and>
       focusIndex (state (engine (start w))) =
         startWordIndex (sentenceWordMap (engine w) ! nat (sentenceIndex (state (engine w)) + 1)) \<and>
       isPlaying (state (engine (start w))) \<and>
       intervalId (engine (start w)) = Some (Suc (nextTimerId w)) \<and>
       timers (start w) = timers (saveStateDebounced (Finite 2000) w) @
           [\<lparr> timerId = Suc (nextTimerId w), timerKind = Timeout,
              timerDelay = Finite (real (length (split_words (sentenceText
                  (sentenceWordMap (engine w) ! nat (sentenceIndex (state (engine w)) + 1)))))
                / v * 60000),
              timerCallback = AdvanceSentence \<rparr>]) \<and>
    (\<not> isPlaying (state (engine w)) \<and>
     \<not> sentenceIndex (state (engine w)) < int (length (sentenceWordMap (engine w))) - 1 \<longrightarrow>
       \<not> isPlaying (state (engine (start w))) \<and>
       sentenceIndex (state (engine (start w))) = sentenceIndex (state (engine w)) \<and>
       focusIndex (state (engine (start w))) = focusIndex (state (engine w)) \<and>
       set (timers (start w)) \<subseteq> set (timers w)) \<and>
    (isPlaying (state (engine w)) \<and> - 1 \<le> sentenceIndex (state (engine w)) \<and>
     sentenceIndex (state (engine w)) < int (length (sentenceWordMap (engine w))) - 1 \<longrightarrow>
       sentenceIndex (state (engine (advanceSentence w))) = sentenceIndex (state (engine w)) + 1 \<and>
       focusIndex (state (engine (advanceSentence w))) =
         startWordIndex (sentenceWordMap (engine w) ! nat (sentenceIndex (state (engine w)) + 1)) \<and>
       timers (advanceSentence w) = timers (saveStateDebounced (Finite 2000) w) @
           [\<lparr> timerId = Suc (nextTimerId w), timerKind = Timeout,
              timerDelay = Finite (real (length (split_words (sentenceText
                  (sentenceWordMap (engine w) ! nat (sentenceIndex (state (engine w)) + 1)))))
                / v * 60000),
              timerCallback = AdvanceSentence \<rparr>])"
proof -
  let ?w1 = "upd_state (\<lambda>s. s\<lparr>isPlaying := True\<rparr>) w"
  have st: "start w = advanceSentence ?w1" if "\<not> isPlaying (state (engine w))"
    using that assms(1) by (simp add: start_def Let_def)
  have m1: "mode (state (engine ?w1)) = ''sentence''" using assms(1) by simp
  have p1: "isPlaying (state (engine ?w1))" by simp
  have d1: "timers (saveStateDebounced (Finite 2000) ?w1) = timers (saveStateDebounced (Finite 2000) w)" by simp
  have A: ?thesis if np: "\<not> isPlaying (state (engine w))" and lo: "- 1 \<le> sentenceIndex (state (engine w))"
    and hi: "sentenceIndex (state (engine w)) < int (length (sentenceWordMap (engine w))) - 1"
  proof -
    have hi1: "sentenceIndex (state (engine ?w1)) < int (length (sentenceWordMap (engine ?w1))) - 1"
      using hi by simp
    have lo1: "- 1 \<le> sentenceIndex (state (engine ?w1))" using lo by simp
    note n = advanceSentence_next[OF m1 p1 hi1 lo1]
    show ?thesis using np lo hi n d1 st[OF np] assms(2,3) by (simp add: js_div_def js_mul_def)
  qed
  have B: ?thesis if np: "\<not> isPlaying (state (engine w))"
    and hi: "\<not> sentenceIndex (state (engine w)) < int (length (sentenceWordMap (engine w))) - 1"
  proof -
    have hi1: "\<not> sentenceIndex (state (engine ?w1)) < int (length (sentenceWordMap (engine ?w1))) - 1"
      using hi by simp
    note n = advanceSentence_end[OF hi1]
    show ?thesis using np hi n st[OF np] by simp
  qed
  have C: ?thesis if p: "isPlaying (state (engine w))"
  proof (cases "- 1 \<le> sentenceIndex (state (engine w)) \<and>
     sentenceIndex (state (engine w)) < int (length (sentenceWordMap (engine w))) - 1")
    case True
    then have lo: "- 1 \<le> sentenceIndex (state (engine w))"
      and hi: "sentenceIndex (state (engine w)) < int (length (sentenceWordMap (engine w))) - 1" by simp_all
    note n = advanceSentence_next[OF assms(1) p hi lo]
    show ?thesis using p n assms(2,3) by (simp add: js_div_def js_mul_def)
  next
    case False
    then show ?thesis using p by auto
  qed
  show ?thesis
  proof (cases "isPlaying (state (engine w))")
    case True
    then show ?thesis by (rule C)
  next
    case np: False
    show ?thesis
    proof (cases "sentenceIndex (state (engine w)) < int (length (sentenceWordMap (engine w))) - 1")
      case False
      with np show ?thesis by (rule B)
    next
      case hi: True
      show ?thesis
      proof (cases "- 1 \<le> sentenceIndex (state (engine w))")
        case True
        from np True hi show ?thesis by (rule A)
      next
        case False
        then show ?thesis using np hi by simp
      qed
    qed
  qed
qed

text \<open>The theorem at the example document in sentence mode: its second sentence has two
  words, shown for 480 ms at 250 wpm.\<close>

theorem sentence_start_advances_witness:
  "sentenceIndex (state (engine (run (initial_world (example_engine dr_smith_words)) [ToggleMode]))) = 0 \<and>
   sentenceIndex (state (engine (start (run (initial_world (example_engine dr_smith_words)) [ToggleMode])))) = 1 \<and>
   focusIndex (state (engine (start (run (initial_world (example_engine dr_smith_words)) [ToggleMode])))) = 3 \<and>
   isPlaying (state (engine (start (run (initial_world (example_engine dr_smith_words)) [ToggleMode])))) \<and>
   intervalId (engine (start (run (initial_world (example_engine dr_smith_words)) [ToggleMode]))) = Some 2 \<and>
   last (timers (start (run (initial_world (example_engine dr_smith_words)) [ToggleMode]))) =
     \<lparr> timerId = 2, timerKind = Timeout, timerDelay = Finite 480, timerCallback = AdvanceSentence \<rparr>"
proof -
  note f = dr_smith_engine
  let ?e = "example_engine dr_smith_words"
  let ?w = "run (initial_world ?e) [ToggleMode]"
  have a: "state (engine ?w) = fresh_state\<lparr> mode := ''sentence'' \<rparr>" "nextTimerId ?w = 1"
    "sentenceWordMap (engine ?w) = sentenceWordMap ?e" "config (engine ?w) = CONFIG"
    by (simp_all add: method_defs f)
  have wc: "real (length (split_words ''He left.'')) = 2" by code_simp
  have m: "mode (state (engine ?w)) = ''sentence''" using a by simp
  have p: "wpm (config (engine ?w)) = Finite 250" using a by (simp add: CONFIG_def)
  from sentence_start_advances[OF m p] show ?thesis
    using a f(6) wc by (simp add: fresh_state_def CONFIG_def)
qed

end
